theory Spec2Isabelle
  imports Complex_Main "HOL-Library.Multiset"
begin

section \<open>Python and NumPy primitives used by the loader\<close>

text \<open>
  The loader \<^verbatim>\<open>dat_loader_simple.py\<close> is Python over NumPy and Torch arrays.
  Sequences are lists, two-dimensional arrays are lists of rows, Python integers are
  \<^typ>\<open>int\<close>. Array entries are floating-point numbers in the source; they are
  modelled by \<^typ>\<open>real\<close>, so comparisons and sums are exact and rounding is not
  part of the model. Every exception the modelled code can raise is a value of
  \<open>error\<close>, returned as \<open>Inl\<close>.
\<close>

datatype error =
  AssertionError | IndexError | KeyError | ValueError | RuntimeError | RuntimeWarning

text \<open>\<^verbatim>\<open>xs[:k]\<close>: a negative stop counts from the end, and the slice is clipped.\<close>

definition py_slice_to :: "'a list \<Rightarrow> int \<Rightarrow> 'a list" where
  "py_slice_to xs k =
     (if 0 \<le> k then take (nat k) xs else take (length xs - nat (- k)) xs)"

text \<open>
  Indexing \<^verbatim>\<open>xs[i]\<close>. Positions \<open>0 .. len - 1\<close> are read directly, positions
  \<open>-len .. -1\<close> are read from the end, anything else raises \<^verbatim>\<open>IndexError\<close>.
\<close>

definition py_get :: "'a list \<Rightarrow> int \<Rightarrow> error + 'a" where
  "py_get xs i =
     (if 0 \<le> i \<and> i < int (length xs) then Inr (xs ! nat i)
      else if i < 0 \<and> - int (length xs) \<le> i then Inr (xs ! nat (int (length xs) + i))
      else Inl IndexError)"

text \<open>\<^verbatim>\<open>defm * k\<close>: the list \<open>defm\<close> repeated \<open>k\<close> times, empty when \<open>k \<le> 0\<close>.\<close>

definition py_list_mul :: "'a list \<Rightarrow> int \<Rightarrow> 'a list" where
  "py_list_mul defm k = concat (replicate (nat k) defm)"

text \<open>
  Sequencing of fallible steps: the first error ends the computation, as a raised
  exception does.
\<close>

definition bind_err :: "error + 'a \<Rightarrow> ('a \<Rightarrow> error + 'b) \<Rightarrow> error + 'b" where
  "bind_err m f = (case m of Inl e \<Rightarrow> Inl e | Inr x \<Rightarrow> f x)"

text \<open>Running a fallible function over a list stops at the first error.\<close>

fun map_err :: "('a \<Rightarrow> error + 'b) \<Rightarrow> 'a list \<Rightarrow> error + 'b list" where
  "map_err f [] = Inr []"
| "map_err f (x # xs) =
     (case f x of
        Inl e \<Rightarrow> Inl e
      | Inr y \<Rightarrow> (case map_err f xs of Inl e \<Rightarrow> Inl e | Inr ys \<Rightarrow> Inr (y # ys)))"

section \<open>The padding utility\<close>

text \<open>
  \<^verbatim>\<open>AnetEntDataset.pad_words_with_vocab(out_list, voc=None, pad_len=-1, defm=[1])\<close>.
  The vocabulary argument is \<open>None\<close> when no vocabulary is passed or the one passed has
  no attribute \<^verbatim>\<open>itos\<close>, and \<open>Some itos\<close> otherwise; it is only looked at on the padding
  branch, where \<^verbatim>\<open>voc.itos[1] == '<pad>'\<close> is asserted. The source extends \<^verbatim>\<open>out_list\<close>
  in place and returns it; the model returns the extended list.
\<close>

definition pad_words_with_vocab ::
  "'a list \<Rightarrow> string list option \<Rightarrow> int \<Rightarrow> 'a list \<Rightarrow> error + 'a list" where
  "pad_words_with_vocab out_list voc pad_len defm =
     (let curr_len = int (length out_list) in
      if pad_len = - 1 \<or> curr_len = pad_len then Inr out_list
      else if curr_len > pad_len then Inr (py_slice_to out_list pad_len)
      else
        (case (case voc of
                 None \<Rightarrow> Inr ()
               | Some itos \<Rightarrow>
                   (case py_get itos 1 of
                      Inl e \<Rightarrow> Inl e
                    | Inr w \<Rightarrow> if w = ''<pad>'' then Inr () else Inl AssertionError)) of
           Inl e \<Rightarrow> Inl e
         | Inr _ \<Rightarrow> Inr (out_list @ py_list_mul defm (pad_len - curr_len))))"

section \<open>Proposals, ground-truth boxes and the frame mask\<close>

text \<open>
  The attributes of \<^verbatim>\<open>AnetEntDataset\<close> that the modelled methods read. The two proposal
  stores come from the detection file (\<^verbatim>\<open>dets_num\<close>, \<^verbatim>\<open>dets_labels\<close>): a count per row
  index and, per row index, an array of detections with seven columns (four
  coordinates, frame index, class, confidence).
\<close>

record AnetEntDataset =
  num_proposals :: "int list"
  label_proposals :: "real list list list"
  num_frms :: int
  num_prop_per_frm :: int
  prop_thresh :: real
  exclude_bgd_det :: bool
  max_gt_box :: int
  ctx_for_seg_feats :: int

text \<open>\<^verbatim>\<open>set_args\<close>: \<^verbatim>\<open>self.max_proposals = self.num_prop_per_frm * self.num_frms\<close>.\<close>

definition max_proposals :: "'a AnetEntDataset_scheme \<Rightarrow> int" where
  "max_proposals self = num_prop_per_frm self * num_frms self"

text \<open>
  \<^verbatim>\<open>a[:, k]\<close> on a two-dimensional array given by its rows: column \<open>k\<close> must exist.
\<close>

definition np_col :: "'a list list \<Rightarrow> nat \<Rightarrow> error + 'a list" where
  "np_col rows k =
     (if list_all (\<lambda>row. k < length row) rows then Inr (map (\<lambda>row. row ! k) rows)
      else Inl IndexError)"

text \<open>
  \<^verbatim>\<open>np.array(rows)[:r, k]\<close>. An array built from an empty list is one-dimensional, so
  indexing it with two indices raises.
\<close>

definition np_array_slice_col :: "'a list list \<Rightarrow> int \<Rightarrow> nat \<Rightarrow> error + 'a list" where
  "np_array_slice_col rows r k =
     (if rows = [] \<or> \<not> list_all (\<lambda>row. k < length row) rows then Inl IndexError
      else Inr (map (\<lambda>row. row ! k) (py_slice_to rows r)))"

text \<open>
  \<^verbatim>\<open>get_props(index)\<close>. The mask is a Boolean array in the source, padded with the
  integer 0, which NumPy reads as \<open>False\<close>.
\<close>

definition get_props ::
  "'a AnetEntDataset_scheme \<Rightarrow> int \<Rightarrow> error + (real list list \<times> bool list \<times> int)" where
  "get_props self index =
     bind_err (py_get (num_proposals self) index) (\<lambda>n.
     bind_err (py_get (label_proposals self) index) (\<lambda>lp.
     let proposals = py_slice_to lp n in
     bind_err (np_col proposals 6) (\<lambda>conf.
     bind_err
       (if exclude_bgd_det self
        then bind_err (np_col proposals 5) (\<lambda>cls.
               Inr (map2 (\<lambda>m c. m \<and> c \<noteq> 0)
                      (map (\<lambda>c. c \<ge> prop_thresh self) conf) cls))
        else Inr (map (\<lambda>c. c \<ge> prop_thresh self) conf)) (\<lambda>pnt_mask.
     let num_props = min (int (length proposals)) (max_proposals self) in
     bind_err (pad_words_with_vocab proposals None (max_proposals self) [replicate 7 0])
       (\<lambda>padded_props.
     bind_err (pad_words_with_vocab pnt_mask None (max_proposals self) [False])
       (\<lambda>padded_mask. Inr (padded_props, padded_mask, num_props)))))))"

text \<open>
  A caption record (\<^verbatim>\<open>caption_dct\<close>) holds the boxes (four coordinates each) and
  their frame indices. \<^verbatim>\<open>get_gt_annots\<close> appends the frame index to each box, pads boxes
  and validity mask to \<^verbatim>\<open>max_gt_box\<close>, and returns them with the number of boxes.
\<close>

record caption_dct =
  bbox :: "real list list"
  frm_idx :: "real list"

record gt_annot =
  padded_gt_bboxs :: "real list list"
  padded_gt_box_mask :: "int list"
  num_box :: int

definition get_gt_annots ::
  "'a AnetEntDataset_scheme \<Rightarrow> caption_dct \<Rightarrow> int \<Rightarrow> error + gt_annot" where
  "get_gt_annots self caption idx =
     (let gt_bboxs = bbox caption;
          gt_frms = map (\<lambda>f. [f]) (frm_idx caption)
      in if length gt_bboxs \<noteq> length gt_frms then Inl AssertionError
         else
           let n_box = int (length gt_bboxs);
               gt_bboxs_t = map2 (\<lambda>b f. b @ f) gt_bboxs gt_frms
           in bind_err
                (pad_words_with_vocab gt_bboxs_t None (max_gt_box self) [replicate 5 0])
                (\<lambda>padded.
              bind_err
                (pad_words_with_vocab (py_list_mul [1] n_box) None (max_gt_box self) [0])
                (\<lambda>padded_mask.
                   Inr \<lparr>padded_gt_bboxs = padded,
                        padded_gt_box_mask = padded_mask,
                        num_box = n_box\<rparr>)))"

text \<open>
  \<^verbatim>\<open>get_frm_mask(proposals, gt_bboxs)\<close> on two vectors of frame indices:
  \<^verbatim>\<open>np.tile(proposals.reshape(-1, 1), (1, num_box)) != np.tile(gt_bboxs, (num_pps, 1))\<close>.
\<close>

definition np_tile_cols :: "'a list \<Rightarrow> nat \<Rightarrow> 'a list list" where
  "np_tile_cols v k = map (\<lambda>x. replicate k x) v"

definition np_tile_rows :: "'a list \<Rightarrow> nat \<Rightarrow> 'a list list" where
  "np_tile_rows v k = replicate k v"

definition get_frm_mask :: "real list \<Rightarrow> real list \<Rightarrow> bool list list" where
  "get_frm_mask proposals gt_bboxs =
     (let num_pps = length proposals;
          n_box = length gt_bboxs
      in map2 (\<lambda>r1 r2. map2 (\<lambda>a b. a \<noteq> b) r1 r2)
           (np_tile_cols proposals n_box) (np_tile_rows gt_bboxs num_pps))"

text \<open>\<^verbatim>\<open>np.ones((r, c))\<close>: a negative dimension raises.\<close>

definition np_ones :: "int \<Rightarrow> int \<Rightarrow> error + int list list" where
  "np_ones r c =
     (if r < 0 \<or> c < 0 then Inl ValueError
      else Inr (replicate (nat r) (replicate (nat c) 1)))"

text \<open>
  \<^verbatim>\<open>A[:r, :c] = M\<close> for an array \<open>A\<close> of shape \<open>R \<times> C\<close> and a Boolean array \<open>M\<close> of shape
  \<open>a \<times> b\<close>. The selected block has as many rows and columns as the two slices select;
  \<open>M\<close> must have the shape of the block or be broadcast along an axis of length 1,
  otherwise NumPy raises.
\<close>

definition np_assign_block ::
  "nat \<Rightarrow> nat \<Rightarrow> int list list \<Rightarrow> int \<Rightarrow> int \<Rightarrow> nat \<Rightarrow> nat \<Rightarrow> bool list list
     \<Rightarrow> error + int list list" where
  "np_assign_block R C A r c a b M =
     (let rb = length (py_slice_to [0..<R] r);
          cb = length (py_slice_to [0..<C] c)
      in if (a = rb \<or> a = 1) \<and> (b = cb \<or> b = 1)
         then Inr (map (\<lambda>i. map (\<lambda>j.
                     if i < rb \<and> j < cb
                     then of_bool (M ! (if a = rb then i else 0) ! (if b = cb then j else 0))
                     else A ! i ! j) [0..<C]) [0..<R])
         else Inl ValueError)"

text \<open>
  The part of \<^verbatim>\<open>simple_item_getter(idx)\<close> that builds \<^verbatim>\<open>pad_frm_mask\<close>: the proposals of
  row \<open>ix\<close>, the ground-truth boxes of the caption record, the frame mask of the two
  frame-index columns, and the all-ones array that receives it. Feature loading,
  which lies between these steps in the source, reads files and does not touch these
  values; it is left out.
\<close>

definition simple_item_getter_pad_frm_mask ::
  "'a AnetEntDataset_scheme \<Rightarrow> int \<Rightarrow> caption_dct \<Rightarrow> int \<Rightarrow> error + int list list" where
  "simple_item_getter_pad_frm_mask self ix caption idx =
     bind_err (get_props self ix) (\<lambda>(padded_props, pad_pnt_mask, num_props).
     bind_err (get_gt_annots self caption idx) (\<lambda>gt_annot_dict.
     let pad_gt_bboxs = padded_gt_bboxs gt_annot_dict;
         n_box = num_box gt_annot_dict
     in
     bind_err (np_array_slice_col padded_props num_props 4) (\<lambda>prop_frms.
     bind_err (np_array_slice_col pad_gt_bboxs n_box 4) (\<lambda>gt_frms.
     let frm_mask = get_frm_mask prop_frms gt_frms in
     bind_err (np_ones (max_proposals self) (max_gt_box self)) (\<lambda>ones.
     np_assign_block (nat (max_proposals self)) (nat (max_gt_box self)) ones
       num_props n_box (length prop_frms) (length gt_frms) frm_mask)))))"

text \<open>A small dataset used to run the definitions: one row index with three stored
  detections, two of them counted, and room for four proposals and three boxes.\<close>

definition example_dataset :: AnetEntDataset where
  "example_dataset =
     \<lparr>num_proposals = [2],
      label_proposals = [[[0, 0, 10, 10, 0, 1, 9 / 10],
                          [5, 5, 20, 20, 1, 0, 8 / 10],
                          [1, 1, 2, 2, 2, 3, 2 / 10]]],
      num_frms = 2,
      num_prop_per_frm = 2,
      prop_thresh = 1 / 2,
      exclude_bgd_det = True,
      max_gt_box = 3,
      ctx_for_seg_feats = 0\<rparr>"

section \<open>Segment features on the frame grid\<close>

text \<open>
  \<^verbatim>\<open>xs[lo:hi]\<close>: each bound is counted from the end when negative and clipped to the
  list.
\<close>

definition py_slice :: "'a list \<Rightarrow> int \<Rightarrow> int \<Rightarrow> 'a list" where
  "py_slice xs lo hi =
     (let n = int (length xs);
          clip = (\<lambda>i. if i < 0 then max (i + n) 0 else min i n)
      in take (nat (clip hi - clip lo)) (drop (nat (clip lo)) xs))"

text \<open>\<^verbatim>\<open>x.astype(np.int_)\<close> drops the fractional part.\<close>

definition np_astype_int :: "real \<Rightarrow> int" where
  "np_astype_int x = (if 0 \<le> x then \<lfloor>x\<rfloor> else \<lceil>x\<rceil>)"

text \<open>
  \<^verbatim>\<open>rows.mean(axis=0)\<close>. For an empty slice NumPy issues a \<^verbatim>\<open>RuntimeWarning\<close> (and
  yields not-a-number entries, which \<^typ>\<open>real\<close> does not have); the source wraps the
  call in \<^verbatim>\<open>except RuntimeWarning\<close>, that is, it expects the warning to be raised. The
  model takes it as raised: the outcome is \<open>RuntimeWarning\<close>.
\<close>

definition np_mean_axis0 :: "real list list \<Rightarrow> error + real list" where
  "np_mean_axis0 rows =
     (if rows = [] then Inl RuntimeWarning
      else Inr (map (\<lambda>col. sum_list col / real (length rows)) (transpose rows)))"

text \<open>
  \<^verbatim>\<open>get_seg_feat_for_frms(seg_feats, timestamps, duration, idx)\<close>: the clip is cut into
  ten bins, each bin centre is mapped to a row of the segment features (two rows per
  second), and each bin is the mean of the rows within \<open>ctx\<close> of that row, or the row
  itself when \<open>ctx\<close> is 0; the second result is the mean over the whole window. An
  inverted pair of timestamps is swapped first. The arguments \<^verbatim>\<open>duration\<close> and \<^verbatim>\<open>idx\<close> are
  not read by the source.
\<close>

definition get_seg_feat_for_frms ::
  "'a AnetEntDataset_scheme \<Rightarrow> real list list \<Rightarrow> real \<times> real \<Rightarrow> real \<Rightarrow> int
     \<Rightarrow> error + (real list list \<times> real list)" where
  "get_seg_feat_for_frms self seg_feats timestamps duration idx =
     (let ctx = ctx_for_seg_feats self;
          timestamps' =
            (if fst timestamps > snd timestamps then (snd timestamps, fst timestamps)
             else timestamps);
          st_time = fst timestamps';
          end_time = snd timestamps';
          duration_clip = end_time - st_time;
          n_frms = int (length seg_feats);
          frm_ind = map real [0..<10];
          frm_time = map (\<lambda>k. st_time + (duration_clip / 10) * (k + 1 / 2)) frm_ind;
          frm_index_in_seg_feat =
            map (\<lambda>t. min (max (np_astype_int (t * 2) - 1) 0) (n_frms - 1)) frm_time;
          st_indices = map (\<lambda>i. max (i - ctx - 1) 0) frm_index_in_seg_feat;
          end_indices = map (\<lambda>i. min (i + ctx + 1) n_frms) frm_index_in_seg_feat
      in
      bind_err
        (if hd st_indices \<noteq> last end_indices
         then np_mean_axis0 (py_slice seg_feats (hd st_indices) (last end_indices))
         else py_get seg_feats (hd st_indices))
        (\<lambda>seg_feats_frms_glob.
           if \<not> list_all2 (\<lambda>sti endi. endi - sti > 0) st_indices end_indices
           then Inl AssertionError
           else
             bind_err
               (if ctx \<noteq> 0
                then map_err (\<lambda>se. np_mean_axis0 (py_slice seg_feats (fst se) (snd se)))
                       (zip st_indices end_indices)
                else map_err (\<lambda>i. py_get seg_feats i) frm_index_in_seg_feat)
               (\<lambda>seg_feats_frms. Inr (seg_feats_frms, seg_feats_frms_glob))))"

section \<open>Spatial and temporal stacking: the box shift\<close>

text \<open>
  The box tensors are \<^verbatim>\<open>float32\<close> tensors (\<^verbatim>\<open>torch.tensor(...).float()\<close> in the assembler), so
  the shift is computed in single-precision arithmetic. A \<^verbatim>\<open>float32\<close> value is modelled
  as \<open>Some x\<close> for the finite number \<open>x\<close> it denotes and \<open>None\<close> for an infinity or a
  not-a-number; the sign of zero is not kept.
\<close>

type_synonym float32 = "real option"

text \<open>
  Rounding to the nearest integer, ties to the even one.
\<close>

definition round_half_even :: "real \<Rightarrow> int" where
  "round_half_even r =
     (let f = \<lfloor>r\<rfloor>; d = r - of_int f
      in if d < 1 / 2 then f
         else if 1 / 2 < d then f + 1
         else if even f then f else f + 1)"

text \<open>
  \<open>pow2 e\<close> is \<open>2\<close> to the power \<open>e\<close>. \<open>f32_exponent x\<close> is the binary exponent used
  to represent \<open>x\<close>: the \<open>e\<close> with \<open>2^e \<le> |x| < 2^(e+1)\<close>, kept between \<open>-126\<close> (below
  which values are subnormal) and \<open>127\<close>; it is found by searching upwards from \<open>-126\<close>.
\<close>

definition pow2 :: "int \<Rightarrow> real" where
  "pow2 e = (if 0 \<le> e then 2 ^ nat e else 1 / 2 ^ nat (- e))"

fun f32_exp_search :: "nat \<Rightarrow> int \<Rightarrow> real \<Rightarrow> int" where
  "f32_exp_search 0 e a = e"
| "f32_exp_search (Suc k) e a = (if pow2 (e + 1) \<le> a then f32_exp_search k (e + 1) a else e)"

definition f32_exponent :: "real \<Rightarrow> int" where
  "f32_exponent x = f32_exp_search 253 (- 126) \<bar>x\<bar>"

text \<open>
  Rounding a real number to \<^verbatim>\<open>float32\<close>, to nearest with ties to even: the result is the
  nearest multiple of the spacing \<open>2^(e-23)\<close> (24 significant bits), and an infinity
  when that multiple reaches \<open>2^128\<close>.
\<close>

definition f32_round :: "real \<Rightarrow> float32" where
  "f32_round x =
     (let u = pow2 (f32_exponent x - 23);
          r = of_int (round_half_even (x / u)) * u
      in if 2 ^ 128 \<le> \<bar>r\<bar> then None else Some r)"

text \<open>
  Addition and multiplication of \<^verbatim>\<open>float32\<close> values: the exact result, rounded. An
  operand that is an infinity or a not-a-number gives a result that is one.
\<close>

definition f32_add :: "float32 \<Rightarrow> float32 \<Rightarrow> float32" where
  "f32_add a b = (case (a, b) of (Some x, Some y) \<Rightarrow> f32_round (x + y) | _ \<Rightarrow> None)"

definition f32_mul :: "float32 \<Rightarrow> float32 \<Rightarrow> float32" where
  "f32_mul a b = (case (a, b) of (Some x, Some y) \<Rightarrow> f32_round (x * y) | _ \<Rightarrow> None)"

text \<open>
  The values a \<^verbatim>\<open>float32\<close> tensor can hold: a finite one is unchanged by rounding.
\<close>

definition is_f32 :: "float32 \<Rightarrow> bool" where
  "is_f32 a = (case a of None \<Rightarrow> True | Some x \<Rightarrow> f32_round x = Some x)"

text \<open>
  A (contiguous) tensor: its shape and its entries in row-major order. Entry
  \<open>(v, i, c)\<close> of a tensor of shape \<open>[n, m, d]\<close> is at position \<open>(v * m + i) * d + c\<close>.
\<close>

record 'a tensor =
  shape :: "nat list"
  data :: "'a list"

text \<open>
  \<^verbatim>\<open>t.view(*sizes)\<close> on a contiguous tensor. A size below \<open>-1\<close> and a second \<open>-1\<close> are
  refused; one \<open>-1\<close> is inferred from the number of entries, which the other
  sizes must divide (and their product must not be 0); without \<open>-1\<close> the product of
  the sizes must be the number of entries. Every refusal is a \<^verbatim>\<open>RuntimeError\<close>.
\<close>

definition torch_view :: "'a tensor \<Rightarrow> int list \<Rightarrow> error + 'a tensor" where
  "torch_view t sizes =
     (let infer = filter (\<lambda>s. s = - 1) sizes;
          newsize = prod_list (filter (\<lambda>s. s \<noteq> - 1) sizes);
          numel = int (prod_list (shape t))
      in if list_ex (\<lambda>s. s < - 1) sizes \<or> 1 < length infer then Inl RuntimeError
         else if numel = newsize \<or> (infer \<noteq> [] \<and> 0 < newsize \<and> numel mod newsize = 0)
         then (if infer \<noteq> [] \<and> newsize = 0 then Inl RuntimeError
               else Inr \<lparr>shape = map (\<lambda>s. nat (if s = - 1 then numel div newsize else s)) sizes,
                         data = data t\<rparr>)
         else Inl RuntimeError)"

text \<open>
  \<^verbatim>\<open>t.transpose(0, 1).contiguous()\<close>: the first two axes are exchanged and the
  entries laid out again in row-major order.
\<close>

definition transpose01 :: "'a tensor \<Rightarrow> error + 'a tensor" where
  "transpose01 t =
     (case shape t of
        a # b # rest \<Rightarrow>
          let inner = prod_list rest
          in Inr \<lparr>shape = b # a # rest,
                   data = concat (map (\<lambda>y. concat (map (\<lambda>x.
                            take inner (drop ((x * b + y) * inner) (data t))) [0..<a])) [0..<b])\<rparr>
      | _ \<Rightarrow> Inl IndexError)"

text \<open>
  \<^verbatim>\<open>reshuffle_boxes(inp_t)\<close> of \<^verbatim>\<open>verb_item_getter_SPAT\<close>: the rows, in (video, frame,
  proposal) order, are put in (frame, video, proposal) order and flattened.
\<close>

definition reshuffle_boxes ::
  "'a AnetEntDataset_scheme \<Rightarrow> 'b tensor \<Rightarrow> error + 'b tensor" where
  "reshuffle_boxes self inp_t =
     (case shape inp_t of
        [] \<Rightarrow> Inl IndexError
      | n # _ \<Rightarrow>
          let rest = map int (drop 2 (shape inp_t))
          in bind_err (torch_view inp_t
                         ([int n, num_frms self, num_prop_per_frm self] @ rest)) (\<lambda>v.
             bind_err (transpose01 v) (\<lambda>t.
             torch_view t ([num_frms self * int n * num_prop_per_frm self] @ rest))))"

text \<open>
  \<^verbatim>\<open>delta = torch.arange(n) * shift\<close>, then
  \<^verbatim>\<open>delta.view(n, 1, 1).expand(n, num_props, pdim)\<close>: an integer tensor whose entries
  in block \<open>v\<close> are all \<open>v * shift\<close>.
\<close>

definition shift_delta :: "nat \<Rightarrow> nat \<Rightarrow> nat \<Rightarrow> int \<Rightarrow> int list" where
  "shift_delta n num_props pdim shift =
     map (\<lambda>j. int (j div (num_props * pdim)) * shift) [0..<n * num_props * pdim]"

text \<open>
  \<^verbatim>\<open>delta_msk = props.new_zeros(*props.shape); delta_msk[..., cols] = 1\<close>. The index is
  checked entry by entry as the ones are written, so a column that the tensor does not
  have raises unless there is no row to write to.
\<close>

definition shift_delta_msk ::
  "nat \<Rightarrow> nat \<Rightarrow> nat \<Rightarrow> nat list \<Rightarrow> error + float32 list" where
  "shift_delta_msk n num_props pdim cols =
     (if n * num_props \<noteq> 0 \<and> list_ex (\<lambda>c. pdim \<le> c) cols then Inl IndexError
      else Inr (map (\<lambda>j. if j mod pdim \<in> set cols then Some 1 else Some 0)
                  [0..<n * num_props * pdim]))"

text \<open>
  \<^verbatim>\<open>process_props(props, shift=720, keepdim=False, reshuffle_box=False)\<close> of
  \<^verbatim>\<open>verb_item_getter_SPAT\<close>: the offset is converted to \<^verbatim>\<open>float32\<close>
  (\<^verbatim>\<open>delta.float()\<close>), multiplied by the mask of columns 0 and 2 and added to the boxes.
\<close>

definition process_props_SPAT ::
  "'a AnetEntDataset_scheme \<Rightarrow> float32 tensor \<Rightarrow> int \<Rightarrow> bool \<Rightarrow> bool
     \<Rightarrow> error + float32 tensor" where
  "process_props_SPAT self props shift keepdim reshuffle_box =
     (case shape props of
        [n, num_props, pdim] \<Rightarrow>
          let delta = shift_delta n num_props pdim shift
          in bind_err (shift_delta_msk n num_props pdim [0, 2]) (\<lambda>delta_msk.
               let delta' = map2 f32_mul (map (\<lambda>k. f32_round (of_int k)) delta) delta_msk;
                   props_new = \<lparr>shape = [n, num_props, pdim],
                                data = map2 f32_add (data props) delta'\<rparr>
               in bind_err (if reshuffle_box then reshuffle_boxes self props_new
                            else Inr props_new) (\<lambda>props_new.
                    if keepdim then torch_view props_new [int n, int num_props, int pdim]
                    else torch_view props_new [int n * int num_props, int pdim]))
      | _ \<Rightarrow> Inl ValueError)"

text \<open>
  \<^verbatim>\<open>process_props(props, shift=10, keepdim=False, reshuffle_box=False)\<close> of
  \<^verbatim>\<open>verb_item_getter_TEMP\<close>: the same with the mask of column 4; the reshuffle is
  commented out in the source, so the flag has no effect.
\<close>

definition process_props_TEMP ::
  "float32 tensor \<Rightarrow> int \<Rightarrow> bool \<Rightarrow> bool \<Rightarrow> error + float32 tensor" where
  "process_props_TEMP props shift keepdim reshuffle_box =
     (case shape props of
        [n, num_props, pdim] \<Rightarrow>
          let delta = shift_delta n num_props pdim shift
          in bind_err (shift_delta_msk n num_props pdim [4]) (\<lambda>delta_msk.
               let delta' = map2 f32_mul (map (\<lambda>k. f32_round (of_int k)) delta) delta_msk;
                   props_new = \<lparr>shape = [n, num_props, pdim],
                                data = map2 f32_add (data props) delta'\<rparr>
               in if keepdim then torch_view props_new [int n, int num_props, int pdim]
                  else torch_view props_new [int n * int num_props, int pdim])
      | _ \<Rightarrow> Inl ValueError)"

text \<open>
  Reading entry \<open>(v, i, c)\<close> of a three-axis tensor, and the tensors the box shift is
  applied to: \<open>n\<close> blocks of \<open>m\<close> boxes of \<open>d\<close> \<^verbatim>\<open>float32\<close> values.
\<close>

definition tensor_at3 :: "'a tensor \<Rightarrow> nat \<Rightarrow> nat \<Rightarrow> nat \<Rightarrow> 'a" where
  "tensor_at3 t v i c =
     (case shape t of [n, m, d] \<Rightarrow> data t ! ((v * m + i) * d + c))"

definition float32_tensor3 :: "float32 tensor \<Rightarrow> nat \<Rightarrow> nat \<Rightarrow> nat \<Rightarrow> bool" where
  "float32_tensor3 t n m d \<longleftrightarrow>
     shape t = [n, m, d] \<and> length (data t) = n * m * d \<and> (\<forall>a\<in>set (data t). is_f32 a)"

text \<open>
  The tensor \<^verbatim>\<open>props + delta\<close> computed inside \<^verbatim>\<open>process_props\<close>, named for use in the
  proofs.
\<close>

definition shifted ::
  "float32 tensor \<Rightarrow> nat \<Rightarrow> nat \<Rightarrow> nat \<Rightarrow> int \<Rightarrow> nat list \<Rightarrow> float32 tensor" where
  "shifted props n m d shift cols =
     \<lparr>shape = [n, m, d],
      data = map2 f32_add (data props)
               (map2 f32_mul (map (\<lambda>k. f32_round (of_int k)) (shift_delta n m d shift))
                  (map (\<lambda>j. if j mod d \<in> set cols then Some 1 else Some 0)
                     [0..<n * m * d]))\<rparr>"

text \<open>
  A stacked box tensor used to run the definitions: one box for each of two videos;
  the box of video 1 starts at \<open>x = 2^-16\<close>.
\<close>

definition example_boxes :: "float32 tensor" where
  "example_boxes =
     \<lparr>shape = [2, 1, 7],
      data = [Some 0, Some 0, Some 0, Some 0, Some 0, Some 0, Some 0,
              Some (1 / 65536), Some 0, Some 8, Some 0, Some 0, Some 0, Some 0]\<rparr>"

section \<open>Contrastive sampling: the candidate selector\<close>

text \<open>
  A candidate mapping is a Python dictionary from argument names to lists of
  candidate row indices (\<open>-1\<close> for no candidate), kept as an association list in
  insertion order. The attributes of \<^verbatim>\<open>AV_CS\<close> extend those of the base dataset. The
  generators \<^verbatim>\<open>create_random_list\<close> and \<^verbatim>\<open>create_similar_list\<close> live in another module;
  the mapping each returns for a row index is a field of the record, as are the
  precomputed columns \<^verbatim>\<open>RandDS4_Inds\<close> and \<^verbatim>\<open>DS4_Inds\<close> and the column \<^verbatim>\<open>lemma_verb\<close> of the
  annotation table.
\<close>

type_synonym cand_dict = "(string \<times> int list) list"

datatype split = Train | Valid | Test

datatype sample = Random | DS4 | DS4_Random

text \<open>
  A vocabulary as \<^verbatim>\<open>word_to_int_vocab\<close> and the padding utility look at it: the
  dictionary from words to indices (\<^verbatim>\<open>voc.stoi\<close> if there is one, else \<^verbatim>\<open>voc\<close> itself),
  the unknown-word token (\<^verbatim>\<open>voc.UNK\<close> if there is one, else \<^verbatim>\<open>'UNK'\<close>) and the list
  \<^verbatim>\<open>voc.itos\<close> if there is one.
\<close>

record vocab =
  stoi :: "string \<rightharpoonup> int"
  UNK :: string
  itos :: "string list option"

record Anet_SRL = AnetEntDataset +
  srl_arg_len :: int
  split_type :: split
  sample_type :: sample
  cs_nvids_sample :: int
  cs_shuffle :: bool
  lemma_verb :: "int \<rightharpoonup> string"
  RandDS4_Inds :: "int \<rightharpoonup> cand_dict"
  DS4_Inds :: "int \<rightharpoonup> cand_dict"
  create_random_list :: "int \<Rightarrow> cand_dict"
  create_similar_list :: "int \<Rightarrow> cand_dict"
  include_srl_args :: "string list"
  seq_length :: int
  arg_tag_vocab :: vocab

text \<open>
  The random draws of one call: the value of \<^verbatim>\<open>np.random.random()\<close>, the sampler
  \<^verbatim>\<open>np.random.choice(keys, k, replace=False)\<close> and the permutation \<^verbatim>\<open>torch.randperm(n)\<close>.
\<close>

record rng =
  np_random_random :: real
  np_random_choice :: "string list \<Rightarrow> nat \<Rightarrow> string list"
  torch_randperm :: "nat \<Rightarrow> nat list"

text \<open>\<^verbatim>\<open>{k: more_idxs[k] for k in keys}\<close>.\<close>

fun dict_of_keys :: "cand_dict \<Rightarrow> string list \<Rightarrow> error + cand_dict" where
  "dict_of_keys more_idxs [] = Inr []"
| "dict_of_keys more_idxs (k # ks) =
     (case map_of more_idxs k of
        None \<Rightarrow> Inl KeyError
      | Some v \<Rightarrow>
          (case dict_of_keys more_idxs ks of
             Inl e \<Rightarrow> Inl e
           | Inr r \<Rightarrow> Inr ((k, v) # filter (\<lambda>kv. fst kv \<noteq> k) r)))"

text \<open>
  The truncation on the train split, written out twice in the source: when the
  mapping has more than \<^verbatim>\<open>cs_nvids_sample - 1\<close> keys, that many keys are drawn without
  replacement (a negative number of draws raises) and the mapping is restricted to
  them.
\<close>

definition truncate_train :: "int \<Rightarrow> rng \<Rightarrow> cand_dict \<Rightarrow> error + cand_dict" where
  "truncate_train cs r more_idxs =
     (if int (length more_idxs) > cs - 1
      then
        let k = min (int (length more_idxs)) (cs - 1)
        in if k < 0 then Inl ValueError
           else dict_of_keys more_idxs (np_random_choice r (map fst more_idxs) (nat k))
      else Inr more_idxs)"

text \<open>
  The truncation on the valid and test splits: the keys are cut by the slice
  \<^verbatim>\<open>list(more_idxs.keys())[:min(len(more_idxs), self.cs_nvids_sample - 1)]\<close>.
\<close>

definition truncate_eval :: "int \<Rightarrow> cand_dict \<Rightarrow> error + cand_dict" where
  "truncate_eval cs more_idxs =
     (if int (length more_idxs) > cs - 1
      then dict_of_keys more_idxs
             (py_slice_to (map fst more_idxs) (min (int (length more_idxs)) (cs - 1)))
      else Inr more_idxs)"

definition get_random_more_idx ::
  "'a Anet_SRL_scheme \<Rightarrow> rng \<Rightarrow> int \<Rightarrow> error + cand_dict" where
  "get_random_more_idx self r idx =
     (case split_type self of
        Train \<Rightarrow> truncate_train (cs_nvids_sample self) r (create_random_list self idx)
      | _ \<Rightarrow>
          (case RandDS4_Inds self idx of
             None \<Rightarrow> Inl KeyError
           | Some more_idxs \<Rightarrow> truncate_eval (cs_nvids_sample self) more_idxs))"

definition get_cs_more_idxs ::
  "'a Anet_SRL_scheme \<Rightarrow> rng \<Rightarrow> int \<Rightarrow> error + cand_dict" where
  "get_cs_more_idxs self r idx =
     (case split_type self of
        Train \<Rightarrow> truncate_train (cs_nvids_sample self) r (create_similar_list self idx)
      | _ \<Rightarrow>
          (case DS4_Inds self idx of
             None \<Rightarrow> Inl KeyError
           | Some more_idxs \<Rightarrow> truncate_eval (cs_nvids_sample self) more_idxs))"

definition get_cs_and_random_more_idx ::
  "'a Anet_SRL_scheme \<Rightarrow> rng \<Rightarrow> int \<Rightarrow> error + cand_dict" where
  "get_cs_and_random_more_idx self r idx =
     (if np_random_random r < 1 / 2 then get_random_more_idx self r idx
      else get_cs_more_idxs self r idx)"

text \<open>\<^verbatim>\<open>self.more_idx_collector\<close>, chosen in \<^verbatim>\<open>after_init\<close> from the sample type.\<close>

definition more_idx_collector ::
  "'a Anet_SRL_scheme \<Rightarrow> rng \<Rightarrow> int \<Rightarrow> error + cand_dict" where
  "more_idx_collector self r idx =
     (case sample_type self of
        Random \<Rightarrow> get_random_more_idx self r idx
      | DS4 \<Rightarrow> get_cs_more_idxs self r idx
      | DS4_Random \<Rightarrow> get_cs_and_random_more_idx self r idx)"

section \<open>SRL annotations: the verb slot\<close>

text \<open>\<^verbatim>\<open>xs.index(x)\<close>: the position of the first occurrence, \<^verbatim>\<open>ValueError\<close> if there is none.\<close>

fun first_index :: "'a list \<Rightarrow> 'a \<Rightarrow> nat" where
  "first_index [] x = 0"
| "first_index (y # ys) x = (if y = x then 0 else Suc (first_index ys x))"

definition py_index :: "'a list \<Rightarrow> 'a \<Rightarrow> error + int" where
  "py_index xs x = (if x \<in> set xs then Inr (int (first_index xs x)) else Inl ValueError)"

text \<open>
  An SRL row as \<^verbatim>\<open>get_srl_anns\<close> reads it up to the verb slot: \<^verbatim>\<open>req_pat_ix\<close>, a list of
  pairs (argument name, word indices), the words of the sentence and their tags.
\<close>

record srl_row =
  req_pat_ix :: "(string \<times> int list) list"
  words :: "string list"
  tags :: "string list"

text \<open>
  \<^verbatim>\<open>word_to_int_vocab(words, voc, pad_len)\<close>, the local helper of \<^verbatim>\<open>get_srl_anns\<close>: every
  word is replaced by its index, a word the vocabulary does not have by the index of the
  unknown-word token (a dictionary without that token raises); the list is then padded
  and returned with its length before padding.
\<close>

definition word_to_int_vocab ::
  "string list \<Rightarrow> vocab \<Rightarrow> int \<Rightarrow> error + (int list \<times> int)" where
  "word_to_int_vocab ws voc pad_len =
     bind_err (map_err (\<lambda>w. case stoi voc w of
                               Some i \<Rightarrow> Inr i
                             | None \<Rightarrow>
                                 (case stoi voc (UNK voc) of
                                    Some i \<Rightarrow> Inr i
                                  | None \<Rightarrow> Inl KeyError)) ws) (\<lambda>out_list.
     bind_err (pad_words_with_vocab out_list (itos voc) pad_len [1]) (\<lambda>padded.
     Inr (padded, int (length out_list))))"

text \<open>
  \<^verbatim>\<open>get_srl_anns(srl_row)\<close>, in two parts. The first part is the statements before the
  verb slot: unpacking the unzipped \<^verbatim>\<open>req_pat_ix\<close> into argument names and word indices
  (which fails on a row without arguments), the mask of visual arguments, the words
  and the tags at the word indices (an index out of range raises) and the tag indices.
  It returns the five values computed.
\<close>

definition get_srl_anns_tags ::
  "'a Anet_SRL_scheme \<Rightarrow> 'b srl_row_scheme
     \<Rightarrow> error + (string list \<times> int list list \<times> int list \<times> string list list \<times> int list)" where
  "get_srl_anns_tags self row =
     (let vis_set = include_srl_args self
      in if req_pat_ix row = [] then Inl ValueError
         else
           let srl_args = map fst (req_pat_ix row);
               srl_words_inds = map snd (req_pat_ix row)
           in
           bind_err (pad_words_with_vocab (map (\<lambda>s. of_bool (s \<in> set vis_set)) srl_args)
                       None (srl_arg_len self) [0]) (\<lambda>visual_msk.
           bind_err (map_err (\<lambda>y. map_err (\<lambda>ix. py_get (words row) ix) y)
                       srl_words_inds) (\<lambda>srl_arg_words.
           bind_err (map_err (\<lambda>ix. py_get (tags row) ix) (concat srl_words_inds)) (\<lambda>tag_seq.
           bind_err (word_to_int_vocab tag_seq (arg_tag_vocab self) (seq_length self))
             (\<lambda>(tag_word_ind, tag_len).
           Inr (srl_args, srl_words_inds, visual_msk, srl_arg_words, tag_word_ind))))))"

text \<open>
  The second part: \<^verbatim>\<open>assert 'V' in srl_args; verb_ind_in_srl = srl_args.index('V')\<close> and
  \<^verbatim>\<open>if not verb_ind_in_srl <= self.srl_arg_len - 1: verb_ind_in_srl = 0\<close>, then the
  statements that encode the arguments, their words and their boxes, and the returned
  dictionary. Those later statements read the verb slot only to store it under the key
  \<^verbatim>\<open>verb_ind_in_srl\<close>; they are the parameter \<open>rest\<close> of the model, a computation on the
  argument names, the word indices and the words that may fail (the unpacking of the
  padded word indices does when \<^verbatim>\<open>srl_arg_len\<close> is 0) and otherwise gives the
  remaining entries of the dictionary.
\<close>

record 'r srl_out =
  srl_tag_word_ind :: "int list"
  srl_args_visual_msk :: "int list"
  verb_ind_in_srl :: int
  srl_other :: 'r

definition get_srl_anns ::
  "'a Anet_SRL_scheme \<Rightarrow> 'b srl_row_scheme
     \<Rightarrow> (string list \<Rightarrow> int list list \<Rightarrow> string list list \<Rightarrow> error + 'r)
     \<Rightarrow> error + 'r srl_out" where
  "get_srl_anns self row rest =
     bind_err (get_srl_anns_tags self row)
       (\<lambda>(srl_args, srl_words_inds, visual_msk, srl_arg_words, tag_word_ind).
          if ''V'' \<notin> set srl_args then Inl AssertionError
          else
            bind_err (py_index srl_args ''V'') (\<lambda>verb_ind.
            let verb_ind = (if \<not> verb_ind \<le> srl_arg_len self - 1 then 0 else verb_ind)
            in
            bind_err (rest srl_args srl_words_inds srl_arg_words) (\<lambda>other.
            Inr \<lparr>srl_tag_word_ind = tag_word_ind,
                 srl_args_visual_msk = visual_msk,
                 verb_ind_in_srl = verb_ind,
                 srl_other = other\<rparr>)))"

text \<open>
  An SRL row used to run the definitions: a sentence of four words with three
  arguments, the second of which is the verb.
\<close>

definition example_row :: srl_row where
  "example_row =
     \<lparr>req_pat_ix = [(''ARG0'', [0, 1]), (''V'', [2]), (''ARG1'', [3])],
      words = [''a'', ''child'', ''plays'', ''tennis''],
      tags = [''B-ARG0'', ''I-ARG0'', ''B-V'', ''B-ARG1'']\<rparr>"

section \<open>The multi-video composer\<close>

text \<open>
  The state of the gathering loops of \<^verbatim>\<open>verb_item_getter_nvid\<close> is the triple
  (\<^verbatim>\<open>new_idxs\<close>, \<^verbatim>\<open>verb_cmp\<close>, \<^verbatim>\<open>verb_list\<close>). One pass of
  \<^verbatim>\<open>for arg_name, arg_ids in more_idxs.items()\<close> at column \<open>cons\<close>: while fewer than
  \<^verbatim>\<open>cs_nvids_sample\<close> indices are gathered, entry \<open>cons\<close> of the list is read (out of
  range raises) and, unless it is \<open>-1\<close>, appended together with its verb flag and
  its verb (a row index missing from the table raises).
\<close>

type_synonym gather_state = "int list \<times> int list \<times> string list"

fun gather_pass ::
  "'a Anet_SRL_scheme \<Rightarrow> string \<Rightarrow> nat \<Rightarrow> cand_dict \<Rightarrow> gather_state
     \<Rightarrow> error + gather_state" where
  "gather_pass self curr_verb cons [] st = Inr st"
| "gather_pass self curr_verb cons ((arg_name, arg_ids) # rest) (new_idxs, vcmp, vlist) =
     (if int (length new_idxs) < cs_nvids_sample self
      then
        (case py_get arg_ids (int cons) of
           Inl e \<Rightarrow> Inl e
         | Inr arg_id_to_append \<Rightarrow>
             if arg_id_to_append \<noteq> - 1
             then
               (case lemma_verb self arg_id_to_append of
                  None \<Rightarrow> Inl KeyError
                | Some new_verb \<Rightarrow>
                    gather_pass self curr_verb cons rest
                      (new_idxs @ [arg_id_to_append],
                       vcmp @ [of_bool (new_verb = curr_verb)],
                       vlist @ [new_verb]))
             else gather_pass self curr_verb cons rest (new_idxs, vcmp, vlist))
      else gather_pass self curr_verb cons rest (new_idxs, vcmp, vlist))"

text \<open>
  The train split repeats the pass with \<open>cons\<close> increased by one
  \<^verbatim>\<open>while len(new_idxs) < self.cs_nvids_sample\<close>. The loop need not end: the result is
  \<open>None\<close> when it runs forever, \<open>Some (Inl e)\<close> when it raises and \<open>Some (Inr st)\<close>
  when it leaves the loop in state \<open>st\<close>.
\<close>

partial_function (option) gather_train ::
  "'a Anet_SRL_scheme \<Rightarrow> string \<Rightarrow> cand_dict \<Rightarrow> nat \<Rightarrow> gather_state
     \<Rightarrow> (error + gather_state) option" where
  "gather_train self curr_verb more_idxs cons st =
     (if int (length (fst st)) < cs_nvids_sample self
      then
        (case gather_pass self curr_verb cons more_idxs st of
           Inl e \<Rightarrow> Some (Inl e)
         | Inr st' \<Rightarrow> gather_train self curr_verb more_idxs (cons + 1) st')
      else Some (Inr st))"

text \<open>
  \<^verbatim>\<open>simple_permute.argsort()\<close>: the positions ordered by the value they hold. The
  entries of a permutation are distinct, so ties do not arise there.
\<close>

definition argsort :: "nat list \<Rightarrow> nat list" where
  "argsort xs = sort_key (\<lambda>i. xs ! i) [0..<length xs]"

definition shuffle_list_from_perm :: "'a list \<Rightarrow> nat list \<Rightarrow> error + 'a list" where
  "shuffle_list_from_perm lst perm = map_err (\<lambda>ix. py_get lst (int ix)) perm"

text \<open>
  \<^verbatim>\<open>collate_dict_list(dict_list, pad_len)\<close> pads the list of per-video examples with
  copies of the first one and stacks them key by key; it returns the stack and the
  number of examples before padding. The examples are kept abstract.
\<close>

definition collate_dict_list :: "'ex list \<Rightarrow> int \<Rightarrow> error + ('ex list \<times> int)" where
  "collate_dict_list dict_list pad_len =
     (case py_get dict_list 0 of
        Inl e \<Rightarrow> Inl e
      | Inr d0 \<Rightarrow>
          (case pad_words_with_vocab dict_list None pad_len [d0] of
             Inl e \<Rightarrow> Inl e
           | Inr dl_list_pad \<Rightarrow> Inr (dl_list_pad, int (length dict_list))))"

text \<open>
  \<^verbatim>\<open>np.pad(m, (0, k), mode='constant', constant_values=0)\<close> on a square matrix: \<open>k\<close>
  filler entries after each row and \<open>k\<close> filler rows; a negative \<open>k\<close> raises.
\<close>

definition np_pad_after :: "'a \<Rightarrow> int \<Rightarrow> 'a list list \<Rightarrow> error + 'a list list" where
  "np_pad_after z k m =
     (if k < 0 then Inl ValueError
      else Inr (map (\<lambda>row. row @ replicate (nat k) z) m
                @ replicate (nat k) (replicate (length m + nat k) z)))"

record ('ex, 'srl) nvid_out =
  permute :: "nat list"
  permute_inv :: "nat list"
  target_cmp :: nat
  new_srl_idxs :: "int list"
  sent_idx :: int
  num_cmp :: int
  num_cmp_msk :: "int list"
  num_cross_cmp_msk :: "int list list"
  verb_cmp :: "int list"
  verb_cross_cmp :: "bool list list"
  verb_cross_cmp_msk :: "int list list"
  collated_out_dicts :: "'ex list"
  out_dict_verb_for_idx :: "'srl"

text \<open>
  \<^verbatim>\<open>verb_item_getter_nvid(idx)\<close>, in two parts: gathering the row indices, then
  permuting them and building the bookkeeping tensors. The two loaders it calls on row indices, the
  single-example assembler (through the annotation index of the row) and the SRL
  encoder, are parameters of the model; each may fail. Whether the SRL dictionary is
  merged into every example or once (\<^verbatim>\<open>append_everywhere\<close>) only changes where its
  tensors are stored; the model keeps it beside the stacked examples.
\<close>

definition nvid_gather ::
  "'a Anet_SRL_scheme \<Rightarrow> rng \<Rightarrow> int \<Rightarrow> (error + gather_state) option" where
  "nvid_gather self r idx =
     (case more_idx_collector self r idx of
        Inl e \<Rightarrow> Some (Inl e)
      | Inr more_idxs \<Rightarrow>
          (case lemma_verb self idx of
             None \<Rightarrow> Some (Inl KeyError)
           | Some curr_verb \<Rightarrow>
               (if split_type self = Train
                then gather_train self curr_verb more_idxs 0 ([idx], [1], [curr_verb])
                else Some (gather_pass self curr_verb 0 more_idxs
                             ([idx], [1], [curr_verb])))))"

definition nvid_compose ::
  "'a Anet_SRL_scheme \<Rightarrow> rng \<Rightarrow> (int \<Rightarrow> error + 'ex) \<Rightarrow> (int \<Rightarrow> error + 'srl) \<Rightarrow> int
     \<Rightarrow> gather_state \<Rightarrow> error + ('ex, 'srl) nvid_out" where
  "nvid_compose self r item_getter srl_getter idx st =
     (let new_idxs0 = fst st;
          verb_cmp0 = fst (snd st);
          verb_list0 = snd (snd st);
          simple_permute =
            (if cs_shuffle self then torch_randperm r (length new_idxs0)
             else [0..<length new_idxs0]);
          simple_permute_inv = argsort simple_permute;
          cs = cs_nvids_sample self
      in
      bind_err (py_get simple_permute_inv 0) (\<lambda>targ_cmp.
      bind_err (shuffle_list_from_perm new_idxs0 simple_permute) (\<lambda>new_idxs.
      bind_err (shuffle_list_from_perm verb_cmp0 simple_permute) (\<lambda>vcmp.
      bind_err (shuffle_list_from_perm verb_list0 simple_permute) (\<lambda>vlist.
      bind_err (map_err item_getter new_idxs) (\<lambda>new_out_dicts.
      bind_err (srl_getter idx) (\<lambda>srl_dict.
      bind_err (collate_dict_list new_out_dicts cs) (\<lambda>(collated, n_cmp).
      bind_err (pad_words_with_vocab new_idxs None cs [1]) (\<lambda>new_srl_idxs_pad.
      bind_err (pad_words_with_vocab vcmp None cs [0]) (\<lambda>verb_cmp_pad.
      let vlist' = (if int (length vlist) > cs then py_slice_to vlist cs else vlist) in
      bind_err (np_pad_after False (cs - int (length vlist'))
                  (map (\<lambda>a. map (\<lambda>b. a = b) vlist') vlist')) (\<lambda>cross_cmp.
      bind_err (np_pad_after 0 (cs - int (length vlist'))
                  (map (\<lambda>a. map (\<lambda>b. 1) vlist') vlist')) (\<lambda>cross_cmp_msk.
      bind_err (np_pad_after 0 (cs - n_cmp)
                  (map (\<lambda>i. map (\<lambda>j. of_bool (i = j)) [0..<nat n_cmp])
                     [0..<nat n_cmp])) (\<lambda>num_cmp_arr.
      let sp_pad = [nat n_cmp..<nat (n_cmp + cs - n_cmp)] in
      if int (length (simple_permute @ sp_pad)) \<noteq> cs then Inl AssertionError
      else
        Inr \<lparr>permute = simple_permute @ sp_pad,
             permute_inv = simple_permute_inv @ sp_pad,
             target_cmp = targ_cmp,
             new_srl_idxs = new_srl_idxs_pad,
             sent_idx = idx,
             num_cmp = n_cmp,
             num_cmp_msk = py_list_mul [1] n_cmp @ py_list_mul [0] (cs - n_cmp),
             num_cross_cmp_msk = num_cmp_arr,
             verb_cmp = verb_cmp_pad,
             verb_cross_cmp = cross_cmp,
             verb_cross_cmp_msk = cross_cmp_msk,
             collated_out_dicts = collated,
             out_dict_verb_for_idx = srl_dict\<rparr>)))))))))))))"

definition verb_item_getter_nvid ::
  "'a Anet_SRL_scheme \<Rightarrow> rng \<Rightarrow> (int \<Rightarrow> error + 'ex) \<Rightarrow> (int \<Rightarrow> error + 'srl) \<Rightarrow> int
     \<Rightarrow> (error + ('ex, 'srl) nvid_out) option" where
  "verb_item_getter_nvid self r item_getter srl_getter idx =
     (case nvid_gather self r idx of
        None \<Rightarrow> None
      | Some (Inl e) \<Rightarrow> Some (Inl e)
      | Some (Inr st) \<Rightarrow> Some (nvid_compose self r item_getter srl_getter idx st))"

text \<open>
  A small contrastive dataset used to run the definitions: the valid split with two
  videos per example, candidates read from the precomputed columns.
\<close>

definition example_srl :: Anet_SRL where
  "example_srl =
     AnetEntDataset.extend example_dataset
       (Anet_SRL.fields 2 Valid Random 2 True
          [0 \<mapsto> ''run'', 5 \<mapsto> ''run'', 6 \<mapsto> ''jump'', 7 \<mapsto> ''sit'']
          [0 \<mapsto> [(''ARG0'', [5, 6, 7])]]
          [0 \<mapsto> [(''ARG0'', [6]), (''ARG1'', [7])]]
          (\<lambda>idx. [(''ARG0'', [5, 6]), (''ARG1'', [- 1, 7])])
          (\<lambda>idx. [])
          [''ARG0'', ''ARG1'']
          5
          \<lparr>stoi = [''<unk>'' \<mapsto> 0, ''<pad>'' \<mapsto> 1, ''B-V'' \<mapsto> 2,
                   ''B-ARG0'' \<mapsto> 3, ''I-ARG0'' \<mapsto> 4],
            UNK = ''<unk>'',
            itos = Some [''<unk>'', ''<pad>'', ''B-V'', ''B-ARG0'', ''I-ARG0'']\<rparr>)"

text \<open>
  Random draws used to run the definitions: the sampler returns the first \<open>k\<close> keys
  and the permutation is the reversal.
\<close>

definition example_rng :: rng where
  "example_rng =
     \<lparr>np_random_random = 0,
      np_random_choice = (\<lambda>xs k. take k xs),
      torch_randperm = (\<lambda>n. rev [0..<n])\<rparr>"

text \<open>
  Two relations used to reason about the gathering loops. \<open>pass_ext\<close> bounds what one
  pass at column \<open>cons\<close> does to a state: the three lists grow in step, by non-sentinel
  entries of the mapping, by at most the number of lists with a non-sentinel entry
  at that column, and not beyond \<open>cs\<close>. \<open>train_ext\<close> is the same for a normal exit of
  the train loop entered at column \<open>cons\<close>, counting against the non-sentinel entries
  the mapping still has from that column on.
\<close>

definition pass_ext ::
  "int \<Rightarrow> nat \<Rightarrow> cand_dict \<Rightarrow> gather_state \<Rightarrow> gather_state \<Rightarrow> bool" where
  "pass_ext cs cons more_idxs st st' \<longleftrightarrow>
     (\<exists>a b c. fst st' = fst st @ a \<and> fst (snd st') = fst (snd st) @ b
          \<and> snd (snd st') = snd (snd st) @ c
          \<and> length b = length a \<and> length c = length a
          \<and> (\<forall>i\<in>set a. i \<noteq> - 1 \<and> (\<exists>kv\<in>set more_idxs. i \<in> set (snd kv)))
          \<and> length a \<le> length (filter (\<lambda>kv. cons < length (snd kv) \<and> snd kv ! cons \<noteq> - 1) more_idxs)
          \<and> (int (length (fst st)) \<le> cs \<longrightarrow> int (length (fst st')) \<le> cs))"

definition train_ext ::
  "int \<Rightarrow> nat \<Rightarrow> cand_dict \<Rightarrow> gather_state \<Rightarrow> gather_state \<Rightarrow> bool" where
  "train_ext cs cons more_idxs st st' \<longleftrightarrow>
     cs \<le> int (length (fst st'))
     \<and> (\<exists>a b c. fst st' = fst st @ a \<and> fst (snd st') = fst (snd st) @ b
          \<and> snd (snd st') = snd (snd st) @ c
          \<and> length b = length a \<and> length c = length a
          \<and> (\<forall>i\<in>set a. i \<noteq> - 1 \<and> (\<exists>kv\<in>set more_idxs. i \<in> set (snd kv)))
          \<and> length a + (\<Sum>kv\<leftarrow>more_idxs. length (filter (\<lambda>i. i \<noteq> - 1) (take cons (snd kv))))
               \<le> (\<Sum>kv\<leftarrow>more_idxs. length (filter (\<lambda>i. i \<noteq> - 1) (snd kv)))
          \<and> (int (length (fst st)) \<le> cs \<longrightarrow> int (length (fst st')) \<le> cs))"







section \<open>Properties of the padding utility\<close>

lemma bind_err_Inr [simp]: "bind_err (Inr x) f = f x"
  by (simp add: bind_err_def)

lemma bind_err_Inl [simp]: "bind_err (Inl e) f = Inl e"
  by (simp add: bind_err_def)

lemma bind_err_Inr_iff:
  "bind_err m f = Inr y \<longleftrightarrow> (\<exists>x. m = Inr x \<and> f x = Inr y)"
  by (cases m) (simp_all add: bind_err_def)

lemma py_list_mul_single: "py_list_mul [d] k = replicate (nat k) d"
  by (induction "nat k" arbitrary: k) (simp_all add: py_list_mul_def)

lemma pad_words_with_vocab_None:
  "pad_words_with_vocab s None pad_len [d] =
     Inr (if pad_len = - 1 \<or> int (length s) = pad_len then s
          else if int (length s) > pad_len then py_slice_to s pad_len
          else s @ replicate (nat (pad_len - int (length s))) d)"
  by (simp add: pad_words_with_vocab_def Let_def py_list_mul_single)

lemma pad_words_with_vocab_nonneg:
  assumes "0 \<le> pad_len"
  shows "pad_words_with_vocab s None pad_len [d] =
           Inr (take (nat pad_len) s @ replicate (nat pad_len - length s) d)"
proof -
  consider "int (length s) = pad_len" | "int (length s) > pad_len" | "int (length s) < pad_len"
    by linarith
  then show ?thesis
  proof cases
    case 1
    then have "nat pad_len = length s" by simp
    with 1 show ?thesis by (simp add: pad_words_with_vocab_None)
  next
    case 2
    then have "nat pad_len - length s = 0" by simp
    with 2 assms show ?thesis
      by (simp add: pad_words_with_vocab_None py_slice_to_def)
  next
    case 3
    then have "length s \<le> nat pad_len" by simp
    moreover have "nat (pad_len - int (length s)) = nat pad_len - length s" by simp
    ultimately show ?thesis using 3 assms
      by (simp add: pad_words_with_vocab_None)
  qed
qed

text \<open>
  Claim C2. Called with a target length \<open>pad_len \<ge> 0\<close> (no vocabulary, a one-element
  filler list \<open>[d]\<close>, as in the default \<^verbatim>\<open>defm=[1]\<close>), the padding utility returns a list of
  length exactly \<open>pad_len\<close>; when the input is at least that long the result is the
  prefix of the input, with no filler; when it is shorter the result is the input
  followed by copies of the filler element; and with \<open>pad_len = -1\<close> the input comes
  back unchanged.
\<close>

theorem pad_words_with_vocab_spec:
  "(0 \<le> pad_len \<longrightarrow>
      (\<exists>r. pad_words_with_vocab s None pad_len [d] = Inr r
         \<and> int (length r) = pad_len
         \<and> (pad_len \<le> int (length s) \<longrightarrow> r = take (nat pad_len) s)
         \<and> (int (length s) < pad_len \<longrightarrow>
              r = s @ replicate (nat pad_len - length s) d)))
   \<and> pad_words_with_vocab s None (- 1) [d] = Inr s"
proof (intro conjI impI)
  assume nn: "0 \<le> pad_len"
  let ?r = "take (nat pad_len) s @ replicate (nat pad_len - length s) d"
  have "pad_words_with_vocab s None pad_len [d] = Inr ?r"
    using nn by (rule pad_words_with_vocab_nonneg)
  moreover have "int (length ?r) = pad_len" using nn by simp
  moreover have "pad_len \<le> int (length s) \<longrightarrow> ?r = take (nat pad_len) s" by simp
  moreover have "int (length s) < pad_len \<longrightarrow> ?r = s @ replicate (nat pad_len - length s) d"
    by simp
  ultimately show "\<exists>r. pad_words_with_vocab s None pad_len [d] = Inr r
         \<and> int (length r) = pad_len
         \<and> (pad_len \<le> int (length s) \<longrightarrow> r = take (nat pad_len) s)
         \<and> (int (length s) < pad_len \<longrightarrow>
              r = s @ replicate (nat pad_len - length s) d)"
    by blast
next
  show "pad_words_with_vocab s None (- 1) [d] = Inr s"
    by (simp add: pad_words_with_vocab_None)
qed

theorem pad_words_with_vocab_spec_witness:
  "pad_words_with_vocab [5, 6, 7 :: int] None 2 [1] = Inr [5, 6]
   \<and> pad_words_with_vocab [5, 6, 7 :: int] None (- 1) [1] = Inr [5, 6, 7]"
  using pad_words_with_vocab_spec [of 2 "[5, 6, 7 :: int]" 1] by auto

section \<open>Properties of the proposal loader\<close>

lemma py_slice_to_set: "x \<in> set (py_slice_to xs k) \<Longrightarrow> x \<in> set xs"
  by (auto simp: py_slice_to_def dest: in_set_takeD split: if_splits)

lemma py_slice_to_nth: "i < length (py_slice_to xs k) \<Longrightarrow> py_slice_to xs k ! i = xs ! i"
  by (auto simp: py_slice_to_def)

lemma py_slice_to_length: "0 \<le> k \<Longrightarrow> k \<le> int (length xs) \<Longrightarrow> int (length (py_slice_to xs k)) = k"
  by (simp add: py_slice_to_def)

lemma np_col_ok: "\<forall>row\<in>set rows. k < length row \<Longrightarrow> np_col rows k = Inr (map (\<lambda>row. row ! k) rows)"
  by (simp add: np_col_def list_all_iff)

lemma get_props_eq:
  assumes n: "py_get (num_proposals self) index = Inr n"
      and d: "py_get (label_proposals self) index = Inr dets"
      and w: "\<forall>row\<in>set dets. length row = 7"
      and m: "0 \<le> max_proposals self"
  shows "get_props self index =
     Inr (take (nat (max_proposals self)) (py_slice_to dets n)
            @ replicate (nat (max_proposals self) - length (py_slice_to dets n)) (replicate 7 0),
          take (nat (max_proposals self))
             (map (\<lambda>row. row ! 6 \<ge> prop_thresh self \<and> (exclude_bgd_det self \<longrightarrow> row ! 5 \<noteq> 0))
                (py_slice_to dets n))
            @ replicate (nat (max_proposals self) - length (py_slice_to dets n)) False,
          min (int (length (py_slice_to dets n))) (max_proposals self))"
proof -
  let ?P = "py_slice_to dets n"
  let ?M = "max_proposals self"
  have wP: "\<forall>row\<in>set ?P. length row = 7" using w by (auto dest: py_slice_to_set)
  have c6: "np_col ?P 6 = Inr (map (\<lambda>row. row ! 6) ?P)" using wP by (intro np_col_ok) simp
  have c5: "np_col ?P 5 = Inr (map (\<lambda>row. row ! 5) ?P)" using wP by (intro np_col_ok) simp
  have mm: "map2 (\<lambda>m c. m \<and> c \<noteq> 0) (map (\<lambda>c. c \<ge> prop_thresh self) (map (\<lambda>row. row ! 6) ?P)) (map (\<lambda>row. row ! 5) ?P)
      = map (\<lambda>row. row ! 6 \<ge> prop_thresh self \<and> row ! 5 \<noteq> 0) ?P"
    by (simp add: map2_map_map)
  have p1: "pad_words_with_vocab ?P None ?M [replicate 7 0] = Inr (take (nat ?M) ?P @ replicate (nat ?M - length ?P) (replicate 7 0))"
    using m by (rule pad_words_with_vocab_nonneg)
  have p2: "\<And>mk. length mk = length ?P \<Longrightarrow> pad_words_with_vocab mk None ?M [False] = Inr (take (nat ?M) mk @ replicate (nat ?M - length ?P) False)"
    using m by (simp add: pad_words_with_vocab_nonneg)
  show ?thesis
  proof (cases "exclude_bgd_det self")
    case True
    show ?thesis unfolding get_props_def Let_def n d c6 c5 bind_err_Inr
      by (simp only: True if_True bind_err_Inr mm p1 p2 length_map simp_thms)
  next
    case False
    show ?thesis unfolding get_props_def Let_def n d c6 c5 bind_err_Inr
      by (simp only: False if_False bind_err_Inr map_map o_def p1 p2 length_map simp_thms)
  qed
qed

text \<open>
  Claim C1. For a row index at which both stores can be read, with seven-column
  detections and a non-negative \<open>max_proposals\<close>, \<^verbatim>\<open>get_props\<close> returns padded proposals,
  padded mask and \<open>num_props\<close>, where \<open>num_props\<close> is the smaller of the number of
  detections selected and \<open>max_proposals\<close> (the stored count itself when the store
  holds that many rows); both padded arrays have \<open>max_proposals\<close> rows; each of the
  first \<open>num_props\<close> rows is the stored detection, and its mask bit is set exactly when
  the confidence (column 6) reaches the threshold and, with background exclusion on,
  the class (column 5) is not 0; every later row is all zero and has mask bit 0.
\<close>
theorem get_props_spec:
  assumes n: "py_get (num_proposals self) index = Inr n"
      and d: "py_get (label_proposals self) index = Inr dets"
      and w: "\<forall>row\<in>set dets. length row = 7"
      and m: "0 \<le> max_proposals self"
  shows "\<exists>padded_props padded_mask num_props.
     get_props self index = Inr (padded_props, padded_mask, num_props)
     \<and> num_props = min (int (length (py_slice_to dets n))) (max_proposals self)
     \<and> (0 \<le> n \<and> n \<le> int (length dets) \<longrightarrow> num_props = min n (max_proposals self))
     \<and> int (length padded_props) = max_proposals self
     \<and> int (length padded_mask) = max_proposals self
     \<and> (\<forall>i. int i < num_props \<longrightarrow>
            padded_props ! i = dets ! i
          \<and> (padded_mask ! i \<longleftrightarrow>
               dets ! i ! 6 \<ge> prop_thresh self
             \<and> (exclude_bgd_det self \<longrightarrow> dets ! i ! 5 \<noteq> 0)))
     \<and> (\<forall>i. num_props \<le> int i \<and> int i < max_proposals self \<longrightarrow>
            padded_props ! i = replicate 7 0 \<and> \<not> padded_mask ! i)"
proof -
  define P where "P = py_slice_to dets n"
  define M where "M = nat (max_proposals self)"
  define f where "f = (\<lambda>row. row ! 6 \<ge> prop_thresh self \<and> (exclude_bgd_det self \<longrightarrow> row ! 5 \<noteq> 0))"
  define pp where "pp = take M P @ replicate (M - length P) (replicate 7 (0::real))"
  define pm where "pm = take M (map f P) @ replicate (M - length P) False"
  define k where "k = min (int (length P)) (max_proposals self)"
  have eq: "get_props self index = Inr (pp, pm, k)"
    unfolding pp_def pm_def k_def P_def M_def f_def using get_props_eq [OF n d w m] .
  have Pn: "\<And>i. i < length P \<Longrightarrow> P ! i = dets ! i"
    unfolding P_def by (rule py_slice_to_nth)
  have kk: "\<And>i. int i < k \<longleftrightarrow> i < length P \<and> i < M"
    unfolding k_def M_def using m by auto
  have c2: "0 \<le> n \<and> n \<le> int (length dets) \<longrightarrow> k = min n (max_proposals self)"
    unfolding k_def P_def by (simp add: py_slice_to_length)
  have l1: "int (length pp) = max_proposals self" unfolding pp_def M_def using m by auto
  have l2: "int (length pm) = max_proposals self" unfolding pm_def M_def using m by auto
  have lo: "\<And>i. int i < k \<Longrightarrow> pp ! i = dets ! i \<and> (pm ! i \<longleftrightarrow> f (dets ! i))"
  proof -
    fix i assume "int i < k"
    then have i: "i < length P" "i < M" using kk by auto
    then show "pp ! i = dets ! i \<and> (pm ! i \<longleftrightarrow> f (dets ! i))"
      unfolding pp_def pm_def by (simp add: nth_append Pn)
  qed
  have hi: "\<And>i. k \<le> int i \<Longrightarrow> int i < max_proposals self \<Longrightarrow> pp ! i = replicate 7 0 \<and> \<not> pm ! i"
  proof -
    fix i assume a: "k \<le> int i" "int i < max_proposals self"
    then have i: "i < M" "length P \<le> i" using kk[of i] unfolding M_def by auto
    then show "pp ! i = replicate 7 0 \<and> \<not> pm ! i"
      unfolding pp_def pm_def by (simp add: nth_append del: replicate.simps)
  qed
  show ?thesis
    apply (rule exI[of _ pp], rule exI[of _ pm], rule exI[of _ k])
    using eq c2 l1 l2 lo hi unfolding k_def[symmetric] P_def[symmetric] f_def by blast
qed

theorem get_props_spec_witness:
  "\<exists>padded_props padded_mask.
     get_props example_dataset 0 = Inr (padded_props, padded_mask, 2)
     \<and> int (length padded_props) = 4 \<and> int (length padded_mask) = 4
     \<and> padded_props ! 0 = [0, 0, 10, 10, 0, 1, 9 / 10] \<and> padded_mask ! 0
     \<and> padded_props ! 1 = [5, 5, 20, 20, 1, 0, 8 / 10] \<and> \<not> padded_mask ! 1
     \<and> padded_props ! 3 = replicate 7 0 \<and> \<not> padded_mask ! 3"
proof -
  let ?dets = "[[0, 0, 10, 10, 0, 1, 9 / 10], [5, 5, 20, 20, 1, 0, 8 / 10],
                [1, 1, 2, 2, 2, 3, 2 / 10 :: real]]"
  have h1: "py_get (num_proposals example_dataset) 0 = Inr 2"
    by (simp add: py_get_def example_dataset_def)
  have h2: "py_get (label_proposals example_dataset) 0 = Inr ?dets"
    by (simp add: py_get_def example_dataset_def)
  have h3: "\<forall>row\<in>set ?dets. length row = 7" by simp
  have h4: "0 \<le> max_proposals example_dataset"
    by (simp add: max_proposals_def example_dataset_def)
  have mp: "max_proposals example_dataset = 4"
    by (simp add: max_proposals_def example_dataset_def)
  have th: "prop_thresh example_dataset = 1 / 2" "exclude_bgd_det example_dataset"
    by (simp_all add: example_dataset_def)
  from get_props_spec [OF h1 h2 h3 h4]
  obtain pp pm k where
    r: "get_props example_dataset 0 = Inr (pp, pm, k)"
    and k: "0 \<le> (2::int) \<and> 2 \<le> int (length ?dets) \<longrightarrow> k = min 2 (max_proposals example_dataset)"
    and l: "int (length pp) = max_proposals example_dataset"
           "int (length pm) = max_proposals example_dataset"
    and lo: "\<forall>i. int i < k \<longrightarrow>
            pp ! i = ?dets ! i
          \<and> (pm ! i \<longleftrightarrow>
               ?dets ! i ! 6 \<ge> prop_thresh example_dataset
             \<and> (exclude_bgd_det example_dataset \<longrightarrow> ?dets ! i ! 5 \<noteq> 0))"
    and hi: "\<forall>i. k \<le> int i \<and> int i < max_proposals example_dataset \<longrightarrow>
            pp ! i = replicate 7 0 \<and> \<not> pm ! i"
    by blast
  have k2: "k = 2" using k mp by simp
  have a0: "pp ! 0 = [0, 0, 10, 10, 0, 1, 9 / 10] \<and> pm ! 0"
    using lo [rule_format, of 0] k2 th by simp
  have a1: "pp ! 1 = [5, 5, 20, 20, 1, 0, 8 / 10] \<and> \<not> pm ! 1"
    using lo [rule_format, of 1] k2 th by simp
  have a3: "pp ! 3 = replicate 7 0 \<and> \<not> pm ! 3"
    using hi [rule_format, of 3] k2 mp by simp
  show ?thesis using r k2 l mp a0 a1 a3 by auto
qed

section \<open>Properties of the ground-truth loader\<close>

text \<open>
  Claim C5, as amended. \<^verbatim>\<open>get_gt_annots\<close> fails its assertion when boxes and frame indices
  differ in number. Otherwise, for \<open>max_gt_box \<ge> 0\<close>, it returns as \<open>num_box\<close> the number
  of boxes of the caption record, unclipped, so that \<open>num_box \<le> max_gt_box\<close> holds exactly
  when the record has at most \<open>max_gt_box\<close> boxes; the padded box array has exactly
  \<open>max_gt_box\<close> rows and the padded validity mask exactly \<open>max_gt_box\<close> entries.
\<close>

theorem get_gt_annots_spec:
  "(length (bbox caption) \<noteq> length (frm_idx caption) \<longrightarrow>
      get_gt_annots self caption idx = Inl AssertionError)
   \<and> (length (bbox caption) = length (frm_idx caption) \<and> 0 \<le> max_gt_box self \<longrightarrow>
        (\<exists>r. get_gt_annots self caption idx = Inr r
           \<and> num_box r = int (length (bbox caption))
           \<and> (num_box r \<le> max_gt_box self \<longleftrightarrow> int (length (bbox caption)) \<le> max_gt_box self)
           \<and> int (length (padded_gt_bboxs r)) = max_gt_box self
           \<and> int (length (padded_gt_box_mask r)) = max_gt_box self))"
proof (intro conjI impI)
  assume "length (bbox caption) \<noteq> length (frm_idx caption)"
  then show "get_gt_annots self caption idx = Inl AssertionError"
    by (simp add: get_gt_annots_def Let_def)
next
  assume a: "length (bbox caption) = length (frm_idx caption) \<and> 0 \<le> max_gt_box self"
  let ?t = "map2 (\<lambda>b f. b @ f) (bbox caption) (map (\<lambda>f. [f]) (frm_idx caption))"
  let ?m = "py_list_mul [1::int] (int (length (bbox caption)))"
  let ?G = "max_gt_box self"
  let ?r = "\<lparr>padded_gt_bboxs = take (nat ?G) ?t @ replicate (nat ?G - length ?t) (replicate 5 0),
             padded_gt_box_mask = take (nat ?G) ?m @ replicate (nat ?G - length ?m) 0,
             num_box = int (length (bbox caption))\<rparr>"
  have e: "get_gt_annots self caption idx = Inr ?r"
    using a unfolding get_gt_annots_def Let_def
    by (simp only: pad_words_with_vocab_nonneg bind_err_Inr length_map simp_thms if_False)
  have "int (length (padded_gt_bboxs ?r)) = ?G" using a by auto
  moreover have "int (length (padded_gt_box_mask ?r)) = ?G" using a by (auto simp: py_list_mul_single)
  ultimately show "\<exists>r. get_gt_annots self caption idx = Inr r
           \<and> num_box r = int (length (bbox caption))
           \<and> (num_box r \<le> max_gt_box self \<longleftrightarrow> int (length (bbox caption)) \<le> max_gt_box self)
           \<and> int (length (padded_gt_bboxs r)) = max_gt_box self
           \<and> int (length (padded_gt_box_mask r)) = max_gt_box self"
    using e by (intro exI[of _ ?r]) simp
qed

text \<open>
  With room for one box and a record of two boxes the returned count is 2: the
  bound \<open>num_box \<le> max_gt_box\<close> does not hold for every caption record.
\<close>

theorem get_gt_annots_num_box_counterexample:
  "get_gt_annots (example_dataset\<lparr>max_gt_box := 1\<rparr>)
       \<lparr>bbox = [[0, 0, 1, 1], [2, 2, 3, 3]], frm_idx = [0, 1]\<rparr> 0
     = Inr \<lparr>padded_gt_bboxs = [[0, 0, 1, 1, 0]], padded_gt_box_mask = [1], num_box = 2\<rparr>
   \<and> \<not> (2 \<le> max_gt_box (example_dataset\<lparr>max_gt_box := 1\<rparr>))"
  by (simp add: get_gt_annots_def example_dataset_def pad_words_with_vocab_def py_slice_to_def py_list_mul_def Let_def)

theorem get_gt_annots_spec_witness:
  "get_gt_annots example_dataset \<lparr>bbox = [[0, 0, 1, 1]], frm_idx = [1]\<rparr> 0
     = Inr \<lparr>padded_gt_bboxs = [[0, 0, 1, 1, 1], [0, 0, 0, 0, 0], [0, 0, 0, 0, 0]],
            padded_gt_box_mask = [1, 0, 0], num_box = 1\<rparr>"
  using get_gt_annots_spec [of "\<lparr>bbox = [[0, 0, 1, 1]], frm_idx = [1]\<rparr>" example_dataset 0]
  by (simp add: get_gt_annots_def example_dataset_def pad_words_with_vocab_def py_slice_to_def py_list_mul_def Let_def numeral_eq_Suc)

section \<open>Properties of the frame mask\<close>

lemma get_frm_mask_rows: "length (get_frm_mask p g) = length p"
  by (simp add: get_frm_mask_def np_tile_cols_def np_tile_rows_def)

lemma get_frm_mask_cols: "i < length p \<Longrightarrow> length (get_frm_mask p g ! i) = length g"
  by (simp add: get_frm_mask_def np_tile_cols_def np_tile_rows_def)

lemma get_frm_mask_nth:
  "i < length p \<Longrightarrow> j < length g \<Longrightarrow> get_frm_mask p g ! i ! j = (p ! i \<noteq> g ! j)"
  by (simp add: get_frm_mask_def np_tile_cols_def np_tile_rows_def)

lemma get_props_num_props:
  assumes "get_props self ix = Inr (pp, pm, k)" "0 \<le> max_proposals self"
  shows "0 \<le> k"
  using assms unfolding get_props_def Let_def
  by (auto simp: bind_err_Inr_iff split: if_splits)

lemma get_gt_annots_num_box:
  assumes "get_gt_annots self caption idx = Inr ga"
  shows "0 \<le> num_box ga"
  using assms unfolding get_gt_annots_def Let_def
  by (auto simp: bind_err_Inr_iff split: if_splits)

lemma py_slice_to_length_le: "0 \<le> k \<Longrightarrow> int (length (py_slice_to xs k)) \<le> k"
  by (simp add: py_slice_to_def)

lemma np_assign_block_shape:
  assumes "np_assign_block R C A r c a b M = Inr B"
  shows "length B = R \<and> (\<forall>i<R. length (B ! i) = C)"
  using assms unfolding np_assign_block_def Let_def
  by (auto split: if_splits)

lemma np_assign_block_outside:
  assumes "np_assign_block R C A r c a b M = Inr B" "0 \<le> r" "0 \<le> c"
      and "i < R" "j < C" "r \<le> int i \<or> c \<le> int j"
  shows "B ! i ! j = A ! i ! j"
proof -
  have "int (length (py_slice_to [0..<R] r)) \<le> r" "int (length (py_slice_to [0..<C] c)) \<le> c"
    using assms(2,3) by (simp_all add: py_slice_to_length_le)
  then have "\<not> (i < length (py_slice_to [0..<R] r) \<and> j < length (py_slice_to [0..<C] c))"
    using assms(6) by linarith
  then show ?thesis
    using assms(1,4,5) unfolding np_assign_block_def Let_def
    by (auto split: if_splits)
qed

text \<open>
  Claim C3. The frame mask of two frame-index vectors has entry \<open>(i, j)\<close> equal to
  \<open>p[i] \<noteq> g[j]\<close> at every valid position. In the single-example assembler the padded
  frame mask has \<open>max_proposals\<close> rows of \<open>max_gt_box\<close> entries, and every entry in a row
  at or beyond \<open>num_props\<close> or in a column at or beyond \<open>num_box\<close> is 1.
\<close>

theorem frm_mask_spec:
  "(\<forall>i j. i < length p \<and> j < length g \<longrightarrow> get_frm_mask p g ! i ! j = (p ! i \<noteq> g ! j))
   \<and> (simple_item_getter_pad_frm_mask self ix caption idx = Inr pad_frm_mask
        \<and> get_props self ix = Inr (padded_props, pad_pnt_mask, num_props)
        \<and> get_gt_annots self caption idx = Inr gt_annot_dict \<longrightarrow>
         int (length pad_frm_mask) = max_proposals self
       \<and> (\<forall>i. int i < max_proposals self \<longrightarrow>
             int (length (pad_frm_mask ! i)) = max_gt_box self)
       \<and> (\<forall>i j. int i < max_proposals self \<and> int j < max_gt_box self
                  \<and> (num_props \<le> int i \<or> num_box gt_annot_dict \<le> int j) \<longrightarrow>
             pad_frm_mask ! i ! j = 1))"
proof (intro conjI impI allI)
  fix i j assume "i < length p \<and> j < length g"
  then show "get_frm_mask p g ! i ! j = (p ! i \<noteq> g ! j)" by (simp add: get_frm_mask_nth)
next
  assume a: "simple_item_getter_pad_frm_mask self ix caption idx = Inr pad_frm_mask
        \<and> get_props self ix = Inr (padded_props, pad_pnt_mask, num_props)
        \<and> get_gt_annots self caption idx = Inr gt_annot_dict"
  then obtain pf gf ones where
      o: "np_ones (max_proposals self) (max_gt_box self) = Inr ones"
    and b: "np_assign_block (nat (max_proposals self)) (nat (max_gt_box self)) ones
               num_props (num_box gt_annot_dict) (length pf) (length gf) (get_frm_mask pf gf) = Inr pad_frm_mask"
    unfolding simple_item_getter_pad_frm_mask_def Let_def
    by (auto simp: bind_err_Inr_iff)
  from o have nn: "0 \<le> max_proposals self" "0 \<le> max_gt_box self"
    and ones: "ones = replicate (nat (max_proposals self)) (replicate (nat (max_gt_box self)) 1)"
    unfolding np_ones_def by (auto split: if_splits)
  have k0: "0 \<le> num_props" using a nn get_props_num_props by blast
  have b0: "0 \<le> num_box gt_annot_dict" using a get_gt_annots_num_box by blast
  note sh = np_assign_block_shape [OF b]
  show "int (length pad_frm_mask) = max_proposals self" using sh nn by simp
  { fix i assume "int i < max_proposals self"
    then show "int (length (pad_frm_mask ! i)) = max_gt_box self" using sh nn by simp }
  { fix i j assume c: "int i < max_proposals self \<and> int j < max_gt_box self
                  \<and> (num_props \<le> int i \<or> num_box gt_annot_dict \<le> int j)"
    then have ij: "i < nat (max_proposals self)" "j < nat (max_gt_box self)" by auto
    have "pad_frm_mask ! i ! j = ones ! i ! j"
      using np_assign_block_outside [OF b k0 b0 ij] c by blast
    then show "pad_frm_mask ! i ! j = 1" using ij ones by simp }
qed

theorem frm_mask_spec_witness:
  "simple_item_getter_pad_frm_mask example_dataset 0 \<lparr>bbox = [[0, 0, 1, 1]], frm_idx = [1]\<rparr> 0
     = Inr [[1, 1, 1], [0, 1, 1], [1, 1, 1], [1, 1, 1]]
   \<and> [[1, 1, 1], [0, 1, 1], [1, 1, 1], [1, 1, 1 :: int]] ! 3 ! 0 = 1
   \<and> get_frm_mask [0, 1] [1] ! 1 ! 0 = ((1::real) \<noteq> 1)"
proof -
  let ?cap = "\<lparr>bbox = [[0, 0, 1, 1]], frm_idx = [1]\<rparr>"
  let ?M = "[[1, 1, 1], [0, 1, 1], [1, 1, 1], [1, 1, 1 :: int]]"
  have gp: "get_props example_dataset 0 =
     Inr ([[0, 0, 10, 10, 0, 1, 9 / 10], [5, 5, 20, 20, 1, 0, 8 / 10],
           [0, 0, 0, 0, 0, 0, 0], [0, 0, 0, 0, 0, 0, 0]], [True, False, False, False], 2)"
    by (simp add: get_props_def example_dataset_def py_get_def py_slice_to_def np_col_def
        max_proposals_def pad_words_with_vocab_def py_list_mul_def Let_def numeral_eq_Suc)
  have ga: "get_gt_annots example_dataset ?cap 0
     = Inr \<lparr>padded_gt_bboxs = [[0, 0, 1, 1, 1], [0, 0, 0, 0, 0], [0, 0, 0, 0, 0]],
            padded_gt_box_mask = [1, 0, 0], num_box = 1\<rparr>"
    by (simp add: get_gt_annots_def example_dataset_def pad_words_with_vocab_def py_slice_to_def py_list_mul_def Let_def numeral_eq_Suc)
  have mx: "max_proposals example_dataset = 4" "max_gt_box example_dataset = 3"
    by (simp_all add: max_proposals_def example_dataset_def)
  have ev: "simple_item_getter_pad_frm_mask example_dataset 0 ?cap 0 = Inr ?M"
    unfolding simple_item_getter_pad_frm_mask_def gp ga
    by (simp add: mx np_array_slice_col_def py_slice_to_def get_frm_mask_def np_tile_cols_def
        np_tile_rows_def np_ones_def np_assign_block_def Let_def upt_rec [of _ "numeral _"] upt_rec [of _ "Suc _"] nth_Cons')
  have "?M ! 3 ! 0 = 1 \<and> get_frm_mask [0, 1] [1] ! 1 ! 0 = ((1::real) \<noteq> 1)"
    using frm_mask_spec [of "[0, 1]" "[1]" example_dataset 0 ?cap 0 ?M _ _ 2, THEN conjunct2, rule_format, OF conjI [OF ev conjI [OF gp ga]]]
          frm_mask_spec [of "[0, 1]" "[1]", THEN conjunct1, rule_format, of 1 0]
    by (simp add: mx)
  then show ?thesis using ev by simp
qed

section \<open>Properties of the verb slot\<close>

lemma first_index_less: "x \<in> set xs \<Longrightarrow> first_index xs x < length xs"
  by (induction xs) auto

lemma first_index_nth: "x \<in> set xs \<Longrightarrow> xs ! first_index xs x = x"
  by (induction xs) auto

lemma first_index_first: "j < first_index xs x \<Longrightarrow> xs ! j \<noteq> x"
proof (induction xs arbitrary: j)
  case Nil
  then show ?case by simp
next
  case (Cons y ys)
  then show ?case by (cases j) (auto split: if_splits)
qed

lemma get_srl_anns_tags_args:
  assumes "get_srl_anns_tags self row = Inr pre"
  shows "fst pre = map fst (req_pat_ix row)" "req_pat_ix row \<noteq> []"
  using assms
  by (auto simp: get_srl_anns_tags_def Let_def bind_err_Inr_iff case_prod_beta
      split: if_splits)

text \<open>
  Claim C8, as amended. Whenever \<^verbatim>\<open>get_srl_anns\<close> returns, some argument of the row is
  named \<open>V\<close> and the verb slot is the position \<open>k\<close> of the first such argument if
  \<open>k \<le> srl_arg_len - 1\<close> and 0 otherwise. When no argument is named \<open>V\<close> the call
  does not return: it fails with the error of the statements before the assertion if
  one of them fails, and with the assertion error otherwise; a row without any
  argument fails at the unpacking. And the call does return, with that slot, when an
  argument is named \<open>V\<close> and the statements before and after the slot succeed.
\<close>

theorem verb_ind_in_srl_spec:
  "(\<forall>out. get_srl_anns self row rest = Inr out \<longrightarrow>
      (\<exists>k. k < length (req_pat_ix row)
         \<and> fst (req_pat_ix row ! k) = ''V''
         \<and> (\<forall>j<k. fst (req_pat_ix row ! j) \<noteq> ''V'')
         \<and> verb_ind_in_srl out = (if int k \<le> srl_arg_len self - 1 then int k else 0)))
   \<and> (''V'' \<notin> set (map fst (req_pat_ix row)) \<longrightarrow>
        get_srl_anns self row rest
          = (case get_srl_anns_tags self row of
               Inl e \<Rightarrow> Inl e
             | Inr pre \<Rightarrow> Inl AssertionError))
   \<and> (req_pat_ix row = [] \<longrightarrow> get_srl_anns self row rest = Inl ValueError)
   \<and> (\<forall>pre other. ''V'' \<in> set (map fst (req_pat_ix row))
          \<and> get_srl_anns_tags self row = Inr pre
          \<and> rest (fst pre) (fst (snd pre)) (fst (snd (snd (snd pre)))) = Inr other \<longrightarrow>
        (\<exists>out. get_srl_anns self row rest = Inr out))"
proof (intro conjI allI impI)
  fix out
  assume r: "get_srl_anns self row rest = Inr out"
  let ?args = "map fst (req_pat_ix row)"
  let ?k = "first_index ?args ''V''"
  from r obtain pre where pre: "get_srl_anns_tags self row = Inr pre"
    by (auto simp: get_srl_anns_def bind_err_Inr_iff)
  have args: "fst pre = ?args" using get_srl_anns_tags_args(1) [OF pre] .
  have v: "''V'' \<in> set ?args"
    using r pre args
    by (auto simp: get_srl_anns_def case_prod_beta split: if_splits)
  have slot: "verb_ind_in_srl out = (if int ?k \<le> srl_arg_len self - 1 then int ?k else 0)"
    using r pre args v
    by (auto simp: get_srl_anns_def case_prod_beta py_index_def Let_def bind_err_Inr_iff
        split: if_splits)
  have k: "?k < length (req_pat_ix row)" using first_index_less [OF v] by simp
  have "?args ! ?k = ''V''" using v by (rule first_index_nth)
  then have a: "fst (req_pat_ix row ! ?k) = ''V''" using k by simp
  have b: "\<forall>j<?k. fst (req_pat_ix row ! j) \<noteq> ''V''"
  proof (intro allI impI)
    fix j assume j: "j < ?k"
    then have "?args ! j \<noteq> ''V''" by (rule first_index_first)
    then show "fst (req_pat_ix row ! j) \<noteq> ''V''" using j k by simp
  qed
  show "\<exists>k. k < length (req_pat_ix row)
         \<and> fst (req_pat_ix row ! k) = ''V''
         \<and> (\<forall>j<k. fst (req_pat_ix row ! j) \<noteq> ''V'')
         \<and> verb_ind_in_srl out = (if int k \<le> srl_arg_len self - 1 then int k else 0)"
    using k a b slot by blast
next
  assume nv: "''V'' \<notin> set (map fst (req_pat_ix row))"
  show "get_srl_anns self row rest
          = (case get_srl_anns_tags self row of
               Inl e \<Rightarrow> Inl e
             | Inr pre \<Rightarrow> Inl AssertionError)"
  proof (cases "get_srl_anns_tags self row")
    case (Inl e)
    then show ?thesis by (simp add: get_srl_anns_def)
  next
    case (Inr pre)
    then show ?thesis
      using nv get_srl_anns_tags_args(1) [OF Inr]
      by (simp add: get_srl_anns_def case_prod_beta)
  qed
next
  assume "req_pat_ix row = []"
  then show "get_srl_anns self row rest = Inl ValueError"
    by (simp add: get_srl_anns_def get_srl_anns_tags_def)
next
  fix pre other
  assume h: "''V'' \<in> set (map fst (req_pat_ix row))
          \<and> get_srl_anns_tags self row = Inr pre
          \<and> rest (fst pre) (fst (snd pre)) (fst (snd (snd (snd pre)))) = Inr other"
  then have args: "fst pre = map fst (req_pat_ix row)"
    using get_srl_anns_tags_args(1) by blast
  show "\<exists>out. get_srl_anns self row rest = Inr out"
    using h args by (simp add: get_srl_anns_def case_prod_beta py_index_def Let_def)
qed

lemma example_srl_fields:
  "srl_arg_len example_srl = 2" "split_type example_srl = Valid"
  "sample_type example_srl = Random" "cs_nvids_sample example_srl = 2"
  "cs_shuffle example_srl"
  by (simp_all add: example_srl_def AnetEntDataset.defs Anet_SRL.defs example_dataset_def)

lemma example_srl_vocab:
  "include_srl_args example_srl = [''ARG0'', ''ARG1'']" "seq_length example_srl = 5"
  "arg_tag_vocab example_srl
     = \<lparr>stoi = [''<unk>'' \<mapsto> 0, ''<pad>'' \<mapsto> 1, ''B-V'' \<mapsto> 2,
                 ''B-ARG0'' \<mapsto> 3, ''I-ARG0'' \<mapsto> 4],
          UNK = ''<unk>'',
          itos = Some [''<unk>'', ''<pad>'', ''B-V'', ''B-ARG0'', ''I-ARG0'']\<rparr>"
  by (simp_all add: example_srl_def AnetEntDataset.defs Anet_SRL.defs example_dataset_def)

lemma example_row_tags:
  "get_srl_anns_tags example_srl example_row
     = Inr ([''ARG0'', ''V'', ''ARG1''], [[0, 1], [2], [3]], [1, 0],
            [[''a'', ''child''], [''plays''], [''tennis'']], [3, 4, 2, 0, 1])"
  "get_srl_anns_tags (example_srl\<lparr>srl_arg_len := 1\<rparr>) example_row
     = Inr ([''ARG0'', ''V'', ''ARG1''], [[0, 1], [2], [3]], [1],
            [[''a'', ''child''], [''plays''], [''tennis'']], [3, 4, 2, 0, 1])"
  "get_srl_anns_tags example_srl
       (example_row\<lparr>req_pat_ix := [(''ARG0'', [0, 1]), (''ARG1'', [3])]\<rparr>)
     = Inr ([''ARG0'', ''ARG1''], [[0, 1], [3]], [1, 1],
            [[''a'', ''child''], [''tennis'']], [3, 4, 0, 1, 1])"
  by (simp_all add: get_srl_anns_tags_def example_row_def example_srl_fields example_srl_vocab
      word_to_int_vocab_def pad_words_with_vocab_def py_slice_to_def py_get_def py_list_mul_def
      Let_def numeral_2_eq_2)

theorem verb_ind_in_srl_spec_witness:
  "(\<exists>out. get_srl_anns example_srl example_row (\<lambda>a b c. Inr ()) = Inr out
        \<and> verb_ind_in_srl out = 1)
   \<and> (\<exists>out. get_srl_anns (example_srl\<lparr>srl_arg_len := 1\<rparr>) example_row (\<lambda>a b c. Inr ()) = Inr out
        \<and> verb_ind_in_srl out = 0)
   \<and> get_srl_anns example_srl (example_row\<lparr>req_pat_ix := []\<rparr>) (\<lambda>a b c. Inr ())
        = Inl ValueError"
proof -
  let ?rest = "\<lambda>(a :: string list) (b :: int list list) (c :: string list list).
                 (Inr () :: error + unit)"
  have v: "''V'' \<in> set (map fst (req_pat_ix example_row))" by (simp add: example_row_def)
  have k: "\<And>k. k < length (req_pat_ix example_row) \<Longrightarrow> fst (req_pat_ix example_row ! k) = ''V''
             \<Longrightarrow> k = 1"
    by (auto simp: example_row_def less_Suc_eq numeral_3_eq_3)
  note t1 = verb_ind_in_srl_spec [of example_srl example_row ?rest]
  from t1 v example_row_tags(1) obtain out where
    o: "get_srl_anns example_srl example_row ?rest = Inr out" by auto
  from t1 o obtain k1 where k1: "k1 < length (req_pat_ix example_row)"
      "fst (req_pat_ix example_row ! k1) = ''V''"
      "verb_ind_in_srl out = (if int k1 \<le> srl_arg_len example_srl - 1 then int k1 else 0)"
    by blast
  have s1: "verb_ind_in_srl out = 1" using k [OF k1(1,2)] k1(3) by (simp add: example_srl_fields)
  note t2 = verb_ind_in_srl_spec [of "example_srl\<lparr>srl_arg_len := 1\<rparr>" example_row ?rest]
  from t2 v example_row_tags(2) obtain out' where
    o': "get_srl_anns (example_srl\<lparr>srl_arg_len := 1\<rparr>) example_row ?rest = Inr out'" by auto
  from t2 o' obtain k2 where k2: "k2 < length (req_pat_ix example_row)"
      "fst (req_pat_ix example_row ! k2) = ''V''"
      "verb_ind_in_srl out'
         = (if int k2 \<le> srl_arg_len (example_srl\<lparr>srl_arg_len := 1\<rparr>) - 1 then int k2 else 0)"
    by blast
  have s2: "verb_ind_in_srl out' = 0" using k [OF k2(1,2)] k2(3) by simp
  have e: "get_srl_anns example_srl (example_row\<lparr>req_pat_ix := []\<rparr>) ?rest = Inl ValueError"
    using verb_ind_in_srl_spec [of example_srl "example_row\<lparr>req_pat_ix := []\<rparr>" ?rest,
        THEN conjunct2, THEN conjunct2, THEN conjunct1]
    by simp
  show ?thesis using o s1 o' s2 e by blast
qed

text \<open>
  A row whose arguments are all present but none of which is the verb does not get
  slot 0: the lookups before the assertion succeed and the call fails its assertion.
\<close>

theorem verb_ind_in_srl_no_verb_counterexample:
  "get_srl_anns example_srl
       (example_row\<lparr>req_pat_ix := [(''ARG0'', [0, 1]), (''ARG1'', [3])]\<rparr>) (\<lambda>a b c. Inr ())
     = Inl AssertionError"
  by (simp add: get_srl_anns_def example_row_tags)

section \<open>Properties of the candidate selector\<close>

lemma map_of_in: "k \<in> fst ` set m \<Longrightarrow> \<exists>v. map_of m k = Some v"
  by (cases "map_of m k") (simp_all add: map_of_eq_None_iff)

lemma dict_of_keys_distinct:
  assumes "distinct (map fst more_idxs)"
  shows "distinct ks \<Longrightarrow> set ks \<subseteq> fst ` set more_idxs \<Longrightarrow>
         dict_of_keys more_idxs ks = Inr (map (\<lambda>k. (k, the (map_of more_idxs k))) ks)"
proof (induction ks)
  case Nil
  then show ?case by simp
next
  case (Cons k ks)
  from Cons.prems have "k \<in> fst ` set more_idxs" by simp
  then obtain v where v: "map_of more_idxs k = Some v"
    using map_of_in by fastforce
  have r: "dict_of_keys more_idxs ks = Inr (map (\<lambda>k. (k, the (map_of more_idxs k))) ks)"
    using Cons by simp
  have f: "filter (\<lambda>kv. fst kv \<noteq> k) (map (\<lambda>k. (k, the (map_of more_idxs k))) ks)
             = map (\<lambda>k. (k, the (map_of more_idxs k))) ks"
  proof -
    have "filter (\<lambda>x. x \<noteq> k) ks = ks" using Cons.prems(1) by (auto simp: filter_id_conv)
    then show ?thesis by (simp add: filter_map o_def)
  qed
  show ?case by (simp add: v r f)
qed

lemma map_of_self:
  assumes "distinct (map fst more_idxs)"
  shows "map (\<lambda>k. (k, the (map_of more_idxs k))) (map fst more_idxs) = more_idxs"
proof -
  have "\<And>kv. kv \<in> set more_idxs \<Longrightarrow> (fst kv, the (map_of more_idxs (fst kv))) = kv"
    using assms by (auto simp: map_of_eq_Some_iff)
  then show ?thesis by (simp add: map_idI)
qed

lemma dict_of_keys_prefix:
  assumes "distinct (map fst more_idxs)"
  shows "dict_of_keys more_idxs (take n (map fst more_idxs)) = Inr (take n more_idxs)"
proof -
  have "dict_of_keys more_idxs (take n (map fst more_idxs))
      = Inr (map (\<lambda>k. (k, the (map_of more_idxs k))) (take n (map fst more_idxs)))"
    using assms by (intro dict_of_keys_distinct) (auto dest: in_set_takeD)
  also have "map (\<lambda>k. (k, the (map_of more_idxs k))) (take n (map fst more_idxs))
      = take n (map (\<lambda>k. (k, the (map_of more_idxs k))) (map fst more_idxs))"
    by (simp only: take_map)
  also have "\<dots> = take n more_idxs" using assms by (simp only: map_of_self)
  finally show ?thesis .
qed

lemma truncate_eval_take:
  assumes "distinct (map fst more_idxs)" "1 \<le> cs"
  shows "truncate_eval cs more_idxs = Inr (take (nat (cs - 1)) more_idxs)"
proof (cases "int (length more_idxs) > cs - 1")
  case True
  then have "py_slice_to (map fst more_idxs) (min (int (length more_idxs)) (cs - 1))
      = take (nat (cs - 1)) (map fst more_idxs)"
    using assms(2) by (simp add: py_slice_to_def min_def)
  then show ?thesis using True assms(1) by (simp add: truncate_eval_def dict_of_keys_prefix)
next
  case False
  then show ?thesis by (simp add: truncate_eval_def)
qed

lemma truncate_train_spec:
  assumes d: "distinct (map fst more_idxs)" and cs: "1 \<le> cs"
      and s: "\<forall>xs k. k \<le> length xs \<and> distinct xs \<longrightarrow>
                length (np_random_choice r xs k) = k
              \<and> distinct (np_random_choice r xs k)
              \<and> set (np_random_choice r xs k) \<subseteq> set xs"
  shows "\<exists>res. truncate_train cs r more_idxs = Inr res
           \<and> int (length res) = min (int (length more_idxs)) (cs - 1)
           \<and> distinct (map fst res) \<and> set res \<subseteq> set more_idxs"
proof (cases "int (length more_idxs) > cs - 1")
  case True
  let ?ks = "np_random_choice r (map fst more_idxs) (nat (cs - 1))"
  have "nat (cs - 1) \<le> length (map fst more_idxs)" using True by simp
  then have k: "length ?ks = nat (cs - 1)" "distinct ?ks" "set ?ks \<subseteq> set (map fst more_idxs)"
    using s d by blast+
  let ?res = "map (\<lambda>k. (k, the (map_of more_idxs k))) ?ks"
  have e: "dict_of_keys more_idxs ?ks = Inr ?res"
    using d k by (intro dict_of_keys_distinct) auto
  have t: "truncate_train cs r more_idxs = Inr ?res"
    using True cs e by (simp add: truncate_train_def Let_def min_def)
  have sub: "set ?res \<subseteq> set more_idxs"
  proof
    fix kv assume "kv \<in> set ?res"
    then obtain k where kk: "k \<in> set ?ks" "kv = (k, the (map_of more_idxs k))" by auto
    then have "k \<in> fst ` set more_idxs" using k(3) by auto
    then obtain v where "map_of more_idxs k = Some v"
      using map_of_in by fastforce
    then show "kv \<in> set more_idxs" using kk by (auto dest: map_of_SomeD)
  qed
  have "int (length ?res) = min (int (length more_idxs)) (cs - 1)"
    using True cs k(1) by simp
  moreover have "distinct (map fst ?res)" using k(2) by (simp add: o_def)
  ultimately show ?thesis using t sub by blast
next
  case False
  then show ?thesis using d by (simp add: truncate_train_def)
qed

text \<open>
  Claim C9, as amended. With \<open>cs_nvids_sample \<ge> 1\<close> and a mapping whose keys are
  distinct, both selectors cut the mapping, not its lists, to at most
  \<open>cs_nvids_sample - 1\<close> entries: on the train split the kept keys are drawn without
  replacement and each keeps its whole candidate list; on the valid and test splits the
  result is the prefix of the precomputed mapping.
\<close>

theorem candidate_selector_spec:
  assumes cs: "1 \<le> cs_nvids_sample self"
      and s: "\<forall>xs k. k \<le> length xs \<and> distinct xs \<longrightarrow>
                length (np_random_choice r xs k) = k
              \<and> distinct (np_random_choice r xs k)
              \<and> set (np_random_choice r xs k) \<subseteq> set xs"
  shows "(split_type self = Train \<and> distinct (map fst (create_random_list self idx)) \<longrightarrow>
            (\<exists>res. get_random_more_idx self r idx = Inr res
               \<and> int (length res) =
                   min (int (length (create_random_list self idx))) (cs_nvids_sample self - 1)
               \<and> distinct (map fst res)
               \<and> set res \<subseteq> set (create_random_list self idx)))
       \<and> (split_type self \<noteq> Train \<and> RandDS4_Inds self idx = Some more_idxs
            \<and> distinct (map fst more_idxs) \<longrightarrow>
            get_random_more_idx self r idx
              = Inr (take (nat (cs_nvids_sample self - 1)) more_idxs))
       \<and> (split_type self = Train \<and> distinct (map fst (create_similar_list self idx)) \<longrightarrow>
            (\<exists>res. get_cs_more_idxs self r idx = Inr res
               \<and> int (length res) =
                   min (int (length (create_similar_list self idx))) (cs_nvids_sample self - 1)
               \<and> distinct (map fst res)
               \<and> set res \<subseteq> set (create_similar_list self idx)))
       \<and> (split_type self \<noteq> Train \<and> DS4_Inds self idx = Some more_idxs
            \<and> distinct (map fst more_idxs) \<longrightarrow>
            get_cs_more_idxs self r idx
              = Inr (take (nat (cs_nvids_sample self - 1)) more_idxs))"
proof (intro conjI impI)
  assume "split_type self = Train \<and> distinct (map fst (create_random_list self idx))"
  then show "\<exists>res. get_random_more_idx self r idx = Inr res
               \<and> int (length res) =
                   min (int (length (create_random_list self idx))) (cs_nvids_sample self - 1)
               \<and> distinct (map fst res)
               \<and> set res \<subseteq> set (create_random_list self idx)"
    using truncate_train_spec [OF _ cs s, of "create_random_list self idx"]
    by (simp add: get_random_more_idx_def)
next
  assume "split_type self \<noteq> Train \<and> RandDS4_Inds self idx = Some more_idxs
            \<and> distinct (map fst more_idxs)"
  then show "get_random_more_idx self r idx
              = Inr (take (nat (cs_nvids_sample self - 1)) more_idxs)"
    using truncate_eval_take [OF _ cs, of more_idxs]
    by (cases "split_type self") (simp_all add: get_random_more_idx_def)
next
  assume "split_type self = Train \<and> distinct (map fst (create_similar_list self idx))"
  then show "\<exists>res. get_cs_more_idxs self r idx = Inr res
               \<and> int (length res) =
                   min (int (length (create_similar_list self idx))) (cs_nvids_sample self - 1)
               \<and> distinct (map fst res)
               \<and> set res \<subseteq> set (create_similar_list self idx)"
    using truncate_train_spec [OF _ cs s, of "create_similar_list self idx"]
    by (simp add: get_cs_more_idxs_def)
next
  assume "split_type self \<noteq> Train \<and> DS4_Inds self idx = Some more_idxs
            \<and> distinct (map fst more_idxs)"
  then show "get_cs_more_idxs self r idx
              = Inr (take (nat (cs_nvids_sample self - 1)) more_idxs)"
    using truncate_eval_take [OF _ cs, of more_idxs]
    by (cases "split_type self") (simp_all add: get_cs_more_idxs_def)
qed

lemma example_sampler:
  "\<forall>xs k. k \<le> length xs \<and> distinct xs \<longrightarrow>
                length (np_random_choice example_rng xs k) = k
              \<and> distinct (np_random_choice example_rng xs k)
              \<and> set (np_random_choice example_rng xs k) \<subseteq> set xs"
  by (auto simp: example_rng_def dest: in_set_takeD)

lemma example_srl_tables:
  "RandDS4_Inds example_srl 0 = Some [(''ARG0'', [5, 6, 7])]"
  "DS4_Inds example_srl 0 = Some [(''ARG0'', [6]), (''ARG1'', [7])]"
  "create_random_list example_srl idx = [(''ARG0'', [5, 6]), (''ARG1'', [- 1, 7])]"
  "create_similar_list example_srl idx = []"
  by (simp_all add: example_srl_def AnetEntDataset.defs Anet_SRL.defs example_dataset_def)

theorem candidate_selector_spec_witness:
  "get_cs_more_idxs example_srl example_rng 0 = Inr [(''ARG0'', [6])]
   \<and> get_random_more_idx (example_srl\<lparr>split_type := Train\<rparr>) example_rng 0
       = Inr [(''ARG0'', [5, 6])]"
proof -
  have cs: "1 \<le> cs_nvids_sample example_srl"
           "1 \<le> cs_nvids_sample (example_srl\<lparr>split_type := Train\<rparr>)"
    by (simp_all add: example_srl_fields)
  have a: "get_cs_more_idxs example_srl example_rng 0 = Inr [(''ARG0'', [6])]"
    using candidate_selector_spec [OF cs(1) example_sampler, of 0 "[(''ARG0'', [6]), (''ARG1'', [7])]"]
    by (simp add: example_srl_fields example_srl_tables)
  have b: "\<exists>res. get_random_more_idx (example_srl\<lparr>split_type := Train\<rparr>) example_rng 0 = Inr res
             \<and> int (length res) = 1"
    using candidate_selector_spec [OF cs(2) example_sampler, of 0]
    by (auto simp add: example_srl_fields example_srl_tables)
  have c: "get_random_more_idx (example_srl\<lparr>split_type := Train\<rparr>) example_rng 0
       = Inr [(''ARG0'', [5, 6])]"
    by (simp add: get_random_more_idx_def truncate_train_def example_srl_fields
        example_srl_tables example_rng_def Let_def)
  show ?thesis using a b c by simp
qed

text \<open>
  With two videos per example the single list of the precomputed mapping keeps its
  three candidates: the lists themselves are not cut to \<open>cs_nvids_sample - 1\<close>.
\<close>

theorem candidate_selector_list_counterexample:
  "get_random_more_idx example_srl example_rng 0 = Inr [(''ARG0'', [5, 6, 7])]
   \<and> \<not> int (length [5, 6, 7 :: int]) \<le> cs_nvids_sample example_srl - 1"
  by (simp add: get_random_more_idx_def truncate_eval_def example_srl_fields example_srl_tables)

section \<open>Properties of the gathering loops\<close>

lemma py_get_Inr: "py_get xs (int i) = Inr x \<Longrightarrow> i < length xs \<and> x = xs ! i"
  by (auto simp: py_get_def split: if_splits)

lemma py_get_exhausted: "length xs \<le> i \<Longrightarrow> py_get xs (int i) = Inl IndexError"
  by (simp add: py_get_def)

lemma pass_ext_refl: "pass_ext cs cons more_idxs st st"
  unfolding pass_ext_def by (intro exI[of _ "[]"]) simp

lemma pass_ext_skip:
  assumes "pass_ext cs cons rest st st'"
  shows "pass_ext cs cons (kv # rest) st st'"
proof -
  from assms obtain a b c where
    h: "fst st' = fst st @ a" "fst (snd st') = fst (snd st) @ b"
       "snd (snd st') = snd (snd st) @ c" "length b = length a" "length c = length a"
       "\<forall>i\<in>set a. i \<noteq> - 1 \<and> (\<exists>kv\<in>set rest. i \<in> set (snd kv))"
       "length a \<le> length (filter (\<lambda>kv. cons < length (snd kv) \<and> snd kv ! cons \<noteq> - 1) rest)"
       "int (length (fst st)) \<le> cs \<longrightarrow> int (length (fst st')) \<le> cs"
    unfolding pass_ext_def by blast
  have 6: "\<forall>i\<in>set a. i \<noteq> - 1 \<and> (\<exists>kv'\<in>set (kv # rest). i \<in> set (snd kv'))"
    using h(6) by simp
  have 7: "length a \<le> length (filter (\<lambda>kv. cons < length (snd kv) \<and> snd kv ! cons \<noteq> - 1) (kv # rest))"
    using h(7) by simp
  show ?thesis unfolding pass_ext_def
    using h(1-5) 6 7 h(8) by blast
qed

lemma pass_ext_append:
  assumes "pass_ext cs cons rest (ni @ [x], vc @ [y], vl @ [z]) st'"
      and "x \<noteq> - 1" "cons < length ids" "ids ! cons = x" "int (length ni) < cs"
  shows "pass_ext cs cons ((k, ids) # rest) (ni, vc, vl) st'"
proof -
  from assms(1) obtain a b c where
    h: "fst st' = (ni @ [x]) @ a" "fst (snd st') = (vc @ [y]) @ b"
       "snd (snd st') = (vl @ [z]) @ c" "length b = length a" "length c = length a"
       "\<forall>i\<in>set a. i \<noteq> - 1 \<and> (\<exists>kv\<in>set rest. i \<in> set (snd kv))"
       "length a \<le> length (filter (\<lambda>kv. cons < length (snd kv) \<and> snd kv ! cons \<noteq> - 1) rest)"
       "int (length (ni @ [x])) \<le> cs \<longrightarrow> int (length (fst st')) \<le> cs"
    unfolding pass_ext_def by auto
  have xin: "x \<in> set ids" using assms(3,4) by auto
  have 1: "fst st' = fst (ni, vc, vl) @ (x # a)" using h(1) by simp
  have 2: "fst (snd st') = fst (snd (ni, vc, vl)) @ (y # b)" using h(2) by simp
  have 3: "snd (snd st') = snd (snd (ni, vc, vl)) @ (z # c)" using h(3) by simp
  have 4: "length (y # b) = length (x # a)" "length (z # c) = length (x # a)" using h(4,5) by simp_all
  have 6: "\<forall>i\<in>set (x # a). i \<noteq> - 1 \<and> (\<exists>kv'\<in>set ((k, ids) # rest). i \<in> set (snd kv'))"
    using h(6) xin assms(2) by simp
  have 7: "length (x # a) \<le> length (filter (\<lambda>kv. cons < length (snd kv) \<and> snd kv ! cons \<noteq> - 1) ((k, ids) # rest))"
    using h(7) assms(2,3,4) by simp
  have 8: "int (length (fst (ni, vc, vl))) \<le> cs \<longrightarrow> int (length (fst st')) \<le> cs"
    using h(8) assms(5) by simp
  show ?thesis unfolding pass_ext_def
    apply (rule exI[of _ "x # a"], rule exI[of _ "y # b"], rule exI[of _ "z # c"])
    using 1 2 3 4 6 7 8 by blast
qed

lemma gather_pass_ext:
  "gather_pass self curr_verb cons more_idxs st = Inr st' \<Longrightarrow>
     pass_ext (cs_nvids_sample self) cons more_idxs st st'"
proof (induction self curr_verb cons more_idxs st arbitrary: st' rule: gather_pass.induct)
  case (1 self curr_verb cons st)
  then show ?case by (simp add: pass_ext_refl)
next
  case (2 self curr_verb cons arg_name arg_ids rest new_idxs vcmp vlist)
  show ?case
  proof (cases "int (length new_idxs) < cs_nvids_sample self")
    case False
    then have "gather_pass self curr_verb cons rest (new_idxs, vcmp, vlist) = Inr st'"
      using 2(4) by simp
    from 2(3)[OF False this] show ?thesis by (rule pass_ext_skip)
  next
    case True
    have "\<exists>x. py_get arg_ids (int cons) = Inr x"
      using 2(4) True by (cases "py_get arg_ids (int cons)") simp_all
    then obtain x where x: "py_get arg_ids (int cons) = Inr x" by blast
    have xi: "cons < length arg_ids" "x = arg_ids ! cons" using py_get_Inr [OF x] by simp_all
    show ?thesis
    proof (cases "x = - 1")
      case eq: True
      then have "gather_pass self curr_verb cons rest (new_idxs, vcmp, vlist) = Inr st'"
        using 2(4) True x by simp
      from 2(2)[OF True x _ this] eq show ?thesis by (simp add: pass_ext_skip)
    next
      case ne: False
      have "\<exists>v. lemma_verb self x = Some v"
        using 2(4) True x ne by (cases "lemma_verb self x") simp_all
      then obtain v where v: "lemma_verb self x = Some v" by blast
      then have g: "gather_pass self curr_verb cons rest
          (new_idxs @ [x], vcmp @ [of_bool (v = curr_verb)], vlist @ [v]) = Inr st'"
        using 2(4) True x ne by simp
      from 2(1)[OF True x ne v g]
      show ?thesis using ne xi True by (intro pass_ext_append) simp_all
    qed
  qed
qed

lemma gather_pass_exhausted:
  "int (length new_idxs) < cs_nvids_sample self \<Longrightarrow> length arg_ids \<le> cons \<Longrightarrow>
     gather_pass self curr_verb cons ((arg_name, arg_ids) # rest) (new_idxs, vcmp, vlist)
       = Inl IndexError"
  by (simp add: py_get_exhausted)

lemma filter_take_le: "length (filter P (take c xs)) \<le> length (filter P xs)"
proof -
  have "length (filter P xs) = length (filter P (take c xs @ drop c xs))" by simp
  also have "\<dots> = length (filter P (take c xs)) + length (filter P (drop c xs))"
    by (simp only: filter_append length_append)
  finally show ?thesis by simp
qed

lemma supplied_le_total:
  "(\<Sum>kv\<leftarrow>more_idxs. length (filter P (take c (snd kv))))
     \<le> (\<Sum>kv\<leftarrow>more_idxs. length (filter P (snd kv)))"
  by (induction more_idxs) (simp_all add: add_mono filter_take_le)

lemma column_step_one:
  "(if c < length ids \<and> ids ! c \<noteq> (- 1 :: int) then 1 else (0::nat))
     + length (filter (\<lambda>i. i \<noteq> - 1) (take c ids))
   = length (filter (\<lambda>i. i \<noteq> - 1) (take (Suc c) ids))"
proof (cases "c < length ids")
  case True
  then show ?thesis by (simp add: take_Suc_conv_app_nth)
next
  case False
  then show ?thesis by simp
qed

lemma column_step:
  "length (filter (\<lambda>kv. c < length (snd kv) \<and> snd kv ! c \<noteq> - 1) (more_idxs :: cand_dict))
     + (\<Sum>kv\<leftarrow>more_idxs. length (filter (\<lambda>i. i \<noteq> - 1) (take c (snd kv))))
   = (\<Sum>kv\<leftarrow>more_idxs. length (filter (\<lambda>i. i \<noteq> - 1) (take (Suc c) (snd kv))))"
proof (induction more_idxs)
  case Nil
  then show ?case by simp
next
  case (Cons kv rest)
  have "(if c < length (snd kv) \<and> snd kv ! c \<noteq> - 1 then 1 else 0)
     + length (filter (\<lambda>i. i \<noteq> - 1) (take c (snd kv)))
   = length (filter (\<lambda>i. i \<noteq> - 1) (take (Suc c) (snd kv)))"
    by (rule column_step_one)
  with Cons show ?case by (simp split: if_splits)
qed

lemma train_ext_exit:
  assumes "\<not> int (length (fst st)) < cs"
  shows "train_ext cs cons more_idxs st st"
  unfolding train_ext_def
  using assms supplied_le_total [of "\<lambda>i. i \<noteq> - 1" cons more_idxs]
  by (intro conjI exI[of _ "[]"]) simp_all

lemma train_ext_step:
  assumes p: "pass_ext cs cons more_idxs st st1"
      and t: "train_ext cs (Suc cons) more_idxs st1 st'"
  shows "train_ext cs cons more_idxs st st'"
proof -
  from p obtain a b c where
    h: "fst st1 = fst st @ a" "fst (snd st1) = fst (snd st) @ b"
       "snd (snd st1) = snd (snd st) @ c" "length b = length a" "length c = length a"
       "\<forall>i\<in>set a. i \<noteq> - 1 \<and> (\<exists>kv\<in>set more_idxs. i \<in> set (snd kv))"
       "length a \<le> length (filter (\<lambda>kv. cons < length (snd kv) \<and> snd kv ! cons \<noteq> - 1) more_idxs)"
       "int (length (fst st)) \<le> cs \<longrightarrow> int (length (fst st1)) \<le> cs"
    unfolding pass_ext_def by blast
  from t obtain a' b' c' where
    g: "cs \<le> int (length (fst st'))"
       "fst st' = fst st1 @ a'" "fst (snd st') = fst (snd st1) @ b'"
       "snd (snd st') = snd (snd st1) @ c'" "length b' = length a'" "length c' = length a'"
       "\<forall>i\<in>set a'. i \<noteq> - 1 \<and> (\<exists>kv\<in>set more_idxs. i \<in> set (snd kv))"
       "length a' + (\<Sum>kv\<leftarrow>more_idxs. length (filter (\<lambda>i. i \<noteq> - 1) (take (Suc cons) (snd kv))))
               \<le> (\<Sum>kv\<leftarrow>more_idxs. length (filter (\<lambda>i. i \<noteq> - 1) (snd kv)))"
       "int (length (fst st1)) \<le> cs \<longrightarrow> int (length (fst st')) \<le> cs"
    unfolding train_ext_def by blast
  have 1: "fst st' = fst st @ (a @ a')" using h(1) g(2) by simp
  have 2: "fst (snd st') = fst (snd st) @ (b @ b')" using h(2) g(3) by simp
  have 3: "snd (snd st') = snd (snd st) @ (c @ c')" using h(3) g(4) by simp
  have 4: "length (b @ b') = length (a @ a')" "length (c @ c') = length (a @ a')"
    using h(4,5) g(5,6) by simp_all
  have 6: "\<forall>i\<in>set (a @ a'). i \<noteq> - 1 \<and> (\<exists>kv\<in>set more_idxs. i \<in> set (snd kv))"
    using h(6) g(7) by auto
  have 7: "length (a @ a') + (\<Sum>kv\<leftarrow>more_idxs. length (filter (\<lambda>i. i \<noteq> - 1) (take cons (snd kv))))
               \<le> (\<Sum>kv\<leftarrow>more_idxs. length (filter (\<lambda>i. i \<noteq> - 1) (snd kv)))"
    using h(7) g(8) column_step [of cons more_idxs] by simp
  have 8: "int (length (fst st)) \<le> cs \<longrightarrow> int (length (fst st')) \<le> cs"
    using h(8) g(9) by blast
  show ?thesis unfolding train_ext_def
    apply (rule conjI[OF g(1)])
    apply (rule exI[of _ "a @ a'"], rule exI[of _ "b @ b'"], rule exI[of _ "c @ c'"])
    using 1 2 3 4 6 7 8 by blast
qed

lemma gather_train_ext:
  assumes "gather_train self curr_verb more_idxs cons st = Some (Inr st')"
  shows "train_ext (cs_nvids_sample self) cons more_idxs st st'"
proof -
  define y where "y = (Inr st' :: error + gather_state)"
  have run: "gather_train self curr_verb more_idxs cons st = Some y"
    using assms by (simp add: y_def)
  have "\<forall>st'. y = Inr st' \<longrightarrow> train_ext (cs_nvids_sample self) cons more_idxs st st'"
  proof (rule gather_train.raw_induct
      [where P = "\<lambda>self curr_verb more_idxs cons st y.
          \<forall>st'. y = Inr st' \<longrightarrow> train_ext (cs_nvids_sample self) cons more_idxs st st'",
        OF _ run])
    fix gt :: "'a Anet_SRL_scheme \<Rightarrow> string \<Rightarrow> cand_dict \<Rightarrow> nat \<Rightarrow> gather_state
                \<Rightarrow> (error + gather_state) option"
      and self :: "'a Anet_SRL_scheme" and curr_verb more_idxs cons st y
    assume IH: "\<And>self curr_verb more_idxs cons st y. gt self curr_verb more_idxs cons st = Some y \<Longrightarrow>
            \<forall>st'. y = Inr st' \<longrightarrow> train_ext (cs_nvids_sample self) cons more_idxs st st'"
      and body: "(if int (length (fst st)) < cs_nvids_sample self
          then case gather_pass self curr_verb cons more_idxs st of
                 Inl e \<Rightarrow> Some (Inl e)
               | Inr st' \<Rightarrow> gt self curr_verb more_idxs (cons + 1) st'
          else Some (Inr st)) = Some y"
    show "\<forall>st'. y = Inr st' \<longrightarrow> train_ext (cs_nvids_sample self) cons more_idxs st st'"
    proof (cases "int (length (fst st)) < cs_nvids_sample self")
      case False
      then have "y = Inr st" using body by simp
      then show ?thesis using False by (simp add: train_ext_exit)
    next
      case True
      show ?thesis
      proof (cases "gather_pass self curr_verb cons more_idxs st")
        case (Inl e)
        then have "y = Inl e" using body True by simp
        then show ?thesis by simp
      next
        case (Inr st1)
        then have r: "gt self curr_verb more_idxs (cons + 1) st1 = Some y"
          using body True by simp
        have p: "pass_ext (cs_nvids_sample self) cons more_idxs st st1"
          using Inr by (rule gather_pass_ext)
        from IH [OF r] have
          "\<forall>st'. y = Inr st' \<longrightarrow> train_ext (cs_nvids_sample self) (Suc cons) more_idxs st1 st'"
          by simp
        then show ?thesis using p train_ext_step by blast
      qed
    qed
  qed
  then show ?thesis by (simp add: y_def)
qed


lemma gather_train_exhausted:
  assumes "int (length new_idxs) < cs_nvids_sample self" "length arg_ids \<le> cons"
  shows "gather_train self curr_verb ((arg_name, arg_ids) # rest) cons (new_idxs, vcmp, vlist)
           = Some (Inl IndexError)"
  using assms
  by (subst gather_train.simps) (simp add: py_get_exhausted)

section \<open>Properties of the multi-video composer\<close>

lemma argsort_props:
  "length (argsort xs) = length xs" "set (argsort xs) = {0..<length xs}"
  "sorted (map (\<lambda>i. xs ! i) (argsort xs))"
  by (simp_all add: argsort_def)

lemma argsort_head_min:
  assumes "j < length xs"
  shows "argsort xs ! 0 < length xs \<and> xs ! (argsort xs ! 0) \<le> xs ! j"
proof -
  let ?L = "argsort xs"
  have n: "0 < length ?L" using assms by (auto simp add: argsort_props)
  then have "?L ! 0 \<in> set ?L" by (rule nth_mem)
  then have a: "?L ! 0 < length xs" by (simp add: argsort_props)
  have "j \<in> set ?L" using assms by (simp add: argsort_props)
  then obtain k where k: "k < length ?L" "?L ! k = j" by (auto simp: in_set_conv_nth)
  have "map (\<lambda>i. xs ! i) ?L ! 0 \<le> map (\<lambda>i. xs ! i) ?L ! k"
    using argsort_props(3) [of xs] k(1) by (intro sorted_nth_mono) simp_all
  then have "xs ! (?L ! 0) \<le> xs ! j" using k n by simp
  with a show ?thesis by simp
qed

lemma perm_has_zero:
  assumes "mset p = mset [0..<n]" "0 < n"
  shows "length p = n \<and> (\<exists>j<n. p ! j = 0) \<and> (\<forall>i\<in>set p. i < n)"
proof -
  have l: "length p = n" using assms(1) by (metis length_upt mset_eq_length minus_nat.diff_0)
  have s: "set p = {0..<n}" using assms(1) by (metis mset_eq_setD set_upt)
  then have "0 \<in> set p" using assms(2) by simp
  then obtain j where "j < length p" "p ! j = 0" by (auto simp: in_set_conv_nth)
  then show ?thesis using l s by auto
qed

lemma argsort_perm_target:
  assumes "mset p = mset [0..<n]" "0 < n"
  shows "argsort p ! 0 < n \<and> p ! (argsort p ! 0) = 0"
proof -
  from perm_has_zero [OF assms] obtain j where
    l: "length p = n" and j: "j < n" "p ! j = 0" by blast
  from argsort_head_min [of j p] j l
  show ?thesis by simp
qed

lemma map_err_Inr:
  "map_err f xs = Inr ys \<Longrightarrow> length ys = length xs \<and> (\<forall>i<length xs. f (xs ! i) = Inr (ys ! i))"
proof (induction xs arbitrary: ys)
  case Nil
  then show ?case by simp
next
  case (Cons x xs)
  from Cons.prems obtain y where y: "f x = Inr y" by (cases "f x") simp_all
  with Cons.prems obtain ys' where ys': "map_err f xs = Inr ys'" by (cases "map_err f xs") simp_all
  with y Cons.prems have e: "ys = y # ys'" by simp
  from Cons.IH [OF ys'] have ih: "length ys' = length xs" "\<forall>i<length xs. f (xs ! i) = Inr (ys' ! i)"
    by simp_all
  show ?case
  proof (intro conjI allI impI)
    show "length ys = length (x # xs)" using e ih(1) by simp
  next
    fix i assume "i < length (x # xs)"
    then show "f ((x # xs) ! i) = Inr (ys ! i)" using e y ih(2) by (cases i) simp_all
  qed
qed

lemma shuffle_list_from_perm_Inr:
  assumes "shuffle_list_from_perm lst perm = Inr r"
  shows "length r = length perm \<and> (\<forall>i<length perm. perm ! i < length lst \<and> r ! i = lst ! (perm ! i))"
proof -
  from map_err_Inr [OF assms [unfolded shuffle_list_from_perm_def]]
  have l: "length r = length perm" and
    p: "\<forall>i<length perm. py_get lst (int (perm ! i)) = Inr (r ! i)" by simp_all
  show ?thesis
  proof (intro conjI allI impI)
    show "length r = length perm" by (rule l)
  next
    fix i assume "i < length perm"
    with p have "py_get lst (int (perm ! i)) = Inr (r ! i)" by simp
    from py_get_Inr [OF this] show "perm ! i < length lst" "r ! i = lst ! (perm ! i)" by simp_all
  qed
qed

lemma collate_dict_list_Inr:
  "collate_dict_list dict_list pad_len = Inr (c, n) \<Longrightarrow> n = int (length dict_list)"
  by (auto simp: collate_dict_list_def split: sum.splits)

lemma np_pad_after_Inr: "np_pad_after z k m = Inr r \<Longrightarrow> 0 \<le> k"
  by (auto simp: np_pad_after_def split: if_splits)

lemma collate_dict_list_snd:
  "collate_dict_list dict_list pad_len = Inr cn \<Longrightarrow> snd cn = int (length dict_list)"
  by (cases cn) (simp add: collate_dict_list_Inr)

lemma map_err_length: "map_err f xs = Inr ys \<Longrightarrow> length ys = length xs"
  using map_err_Inr by blast

lemma shuffle_length: "shuffle_list_from_perm lst perm = Inr r \<Longrightarrow> length r = length perm"
  using shuffle_list_from_perm_Inr by blast

lemma nvid_compose_Inr:
  assumes c: "nvid_compose self r item_getter srl_getter idx st = Inr out"
  shows "\<exists>vcmp. py_get (argsort (if cs_shuffle self then torch_randperm r (length (fst st))
                 else [0..<length (fst st)])) 0 = Inr (target_cmp out)
           \<and> shuffle_list_from_perm (fst (snd st)) (if cs_shuffle self then torch_randperm r (length (fst st))
                 else [0..<length (fst st)]) = Inr vcmp
           \<and> pad_words_with_vocab vcmp None (cs_nvids_sample self) [0] = Inr (verb_cmp out)
           \<and> num_cmp out = int (length (if cs_shuffle self then torch_randperm r (length (fst st))
                 else [0..<length (fst st)]))
           \<and> num_cmp out \<le> cs_nvids_sample self
           \<and> num_cmp_msk out = py_list_mul [1] (num_cmp out)
                @ py_list_mul [0] (cs_nvids_sample self - num_cmp out)"
proof -
  define p where "p = (if cs_shuffle self then torch_randperm r (length (fst st))
                 else [0..<length (fst st)])"
  from c [unfolded nvid_compose_def Let_def, folded p_def]
  obtain targ new_idxs vcmp new_out_dicts cn verb_cmp_pad num_cmp_arr where
        t: "py_get (argsort p) 0 = Inr targ"
    and s1: "shuffle_list_from_perm (fst st) p = Inr new_idxs"
    and s2: "shuffle_list_from_perm (fst (snd st)) p = Inr vcmp"
    and s4: "map_err item_getter new_idxs = Inr new_out_dicts"
    and s6: "collate_dict_list new_out_dicts (cs_nvids_sample self) = Inr cn"
    and s8: "pad_words_with_vocab vcmp None (cs_nvids_sample self) [0] = Inr verb_cmp_pad"
    and s11: "np_pad_after 0 (cs_nvids_sample self - snd cn)
                  (map (\<lambda>i. map (\<lambda>j. of_bool (i = j)) [0..<nat (snd cn)])
                     [0..<nat (snd cn)]) = Inr (num_cmp_arr :: int list list)"
    and out: "target_cmp out = targ" "num_cmp out = snd cn" "verb_cmp out = verb_cmp_pad"
    "num_cmp_msk out = py_list_mul [1] (snd cn) @ py_list_mul [0] (cs_nvids_sample self - snd cn)"
    by (auto simp: bind_err_Inr_iff case_prod_beta split: if_splits)
  have n1: "snd cn = int (length new_out_dicts)" using s6 by (rule collate_dict_list_snd)
  have n2: "length new_out_dicts = length new_idxs" using s4 by (rule map_err_length)
  have n3: "length new_idxs = length p" using s1 by (rule shuffle_length)
  have n4: "snd cn \<le> cs_nvids_sample self" using np_pad_after_Inr [OF s11] by simp
  show ?thesis unfolding p_def [symmetric]
    using t s2 s8 out n1 n2 n3 n4 by auto
qed

lemma example_srl_verbs:
  "lemma_verb example_srl 0 = Some ''run''" "lemma_verb example_srl 5 = Some ''run''"
  "lemma_verb example_srl 6 = Some ''jump''" "lemma_verb example_srl 7 = Some ''sit''"
  by (simp_all add: example_srl_def AnetEntDataset.defs Anet_SRL.defs example_dataset_def)

lemma nvid_gather_Inr:
  assumes "nvid_gather self r idx = Some (Inr st)"
  shows "fst st \<noteq> [] \<and> length (fst (snd st)) = length (fst st) \<and> fst (snd st) ! 0 = 1"
proof -
  from assms obtain more_idxs curr_verb where
    g: "(if split_type self = Train
         then gather_train self curr_verb more_idxs 0 ([idx], [1], [curr_verb])
         else Some (gather_pass self curr_verb 0 more_idxs ([idx], [1], [curr_verb])))
        = Some (Inr st)"
    unfolding nvid_gather_def by (auto split: sum.splits option.splits)
  have "\<exists>a b. fst st = [idx] @ a \<and> fst (snd st) = [1] @ b \<and> length b = length a"
  proof (cases "split_type self = Train")
    case True
    then have "gather_train self curr_verb more_idxs 0 ([idx], [1], [curr_verb]) = Some (Inr st)"
      using g by simp
    from gather_train_ext [OF this] show ?thesis unfolding train_ext_def by auto
  next
    case False
    then have "gather_pass self curr_verb 0 more_idxs ([idx], [1], [curr_verb]) = Inr st"
      using g by simp
    from gather_pass_ext [OF this] show ?thesis unfolding pass_ext_def by auto
  qed
  then show ?thesis by auto
qed

text \<open>
  Claim C4. For every example that \<^verbatim>\<open>verb_item_getter_nvid\<close> returns, on any split and
  for any permutation drawn by \<^verbatim>\<open>torch.randperm\<close> (or the identity when shuffling is off),
  the entries of \<^verbatim>\<open>num_cmp_msk\<close> sum to \<^verbatim>\<open>num_cmp\<close>, and \<^verbatim>\<open>target_cmp\<close> is a valid position of
  \<^verbatim>\<open>verb_cmp\<close> that holds 1.
\<close>

theorem nvid_composer_invariant:
  assumes run: "verb_item_getter_nvid self r item_getter srl_getter idx = Some (Inr out)"
      and perm: "\<forall>n. mset (torch_randperm r n) = mset [0..<n]"
  shows "sum_list (num_cmp_msk out) = num_cmp out
       \<and> target_cmp out < length (verb_cmp out)
       \<and> verb_cmp out ! target_cmp out = 1"
proof -
  from run obtain st where
    g: "nvid_gather self r idx = Some (Inr st)" and
    c: "nvid_compose self r item_getter srl_getter idx st = Inr out"
    unfolding verb_item_getter_nvid_def by (auto split: option.splits sum.splits)
  define n where "n = length (fst st)"
  define p where "p = (if cs_shuffle self then torch_randperm r (length (fst st))
                 else [0..<length (fst st)])"
  from nvid_gather_Inr [OF g] have
    n0: "0 < n" and lv: "length (fst (snd st)) = n" and v0: "fst (snd st) ! 0 = 1"
    by (simp_all add: n_def)
  have mp: "mset p = mset [0..<n]" using perm by (simp add: p_def n_def)
  from nvid_compose_Inr [OF c, folded p_def] obtain vcmp where
    t: "py_get (argsort p) 0 = Inr (target_cmp out)"
    and s: "shuffle_list_from_perm (fst (snd st)) p = Inr vcmp"
    and pd: "pad_words_with_vocab vcmp None (cs_nvids_sample self) [0] = Inr (verb_cmp out)"
    and nc: "num_cmp out = int (length p)" "num_cmp out \<le> cs_nvids_sample self"
    and msk: "num_cmp_msk out = py_list_mul [1] (num_cmp out)
                @ py_list_mul [0] (cs_nvids_sample self - num_cmp out)"
    by blast
  have lp: "length p = n" using perm_has_zero [OF mp n0] by simp
  have "py_get (argsort p) (int 0) = Inr (target_cmp out)" using t by simp
  from py_get_Inr [OF this] have tg: "target_cmp out = argsort p ! 0" by simp
  from argsort_perm_target [OF mp n0] tg have
    tn: "target_cmp out < n" and pt: "p ! target_cmp out = 0" by simp_all
  from shuffle_list_from_perm_Inr [OF s] lp tn have
    lvc: "length vcmp = n" and vt: "vcmp ! target_cmp out = fst (snd st) ! (p ! target_cmp out)"
    by simp_all
  have cs: "int n \<le> cs_nvids_sample self" using nc lp by simp
  then have cs0: "0 \<le> cs_nvids_sample self" by simp
  have vc: "verb_cmp out = take (nat (cs_nvids_sample self)) vcmp
              @ replicate (nat (cs_nvids_sample self) - length vcmp) 0"
    using pd pad_words_with_vocab_nonneg [OF cs0, of vcmp 0] by simp
  have tk: "take (nat (cs_nvids_sample self)) vcmp = vcmp" using cs lvc by simp
  have a: "target_cmp out < length (verb_cmp out)" using vc tk lvc tn by simp
  have b: "verb_cmp out ! target_cmp out = 1"
    using vc tk lvc tn vt pt v0 by (simp add: nth_append)
  have "sum_list (num_cmp_msk out) = num_cmp out"
    using msk nc by (simp add: py_list_mul_single sum_list_replicate)
  with a b show ?thesis by simp
qed

lemma example_rng_perm: "\<forall>n. mset (torch_randperm example_rng n) = mset [0..<n]"
  by (simp add: example_rng_def)

lemma example_gather:
  "nvid_gather (example_srl\<lparr>sample_type := DS4\<rparr>) example_rng 0
     = Some (Inr ([0, 6], [1, 0], [''run'', ''jump'']))"
  by (simp add: nvid_gather_def more_idx_collector_def get_cs_more_idxs_def truncate_eval_def
      py_slice_to_def example_srl_fields example_srl_tables example_srl_verbs py_get_def)

lemma example_argsort: "argsort [Suc 0, 0] = [Suc 0, 0]"
  by (simp add: argsort_def upt_rec [of 0] upt_rec [of "Suc 0"])

lemma example_compose:
  "nvid_compose (example_srl\<lparr>sample_type := DS4\<rparr>) example_rng (\<lambda>i. Inr i) (\<lambda>i. Inr ()) 0
      ([0, 6], [1, 0], [''run'', ''jump''])
   = Inr \<lparr>permute = [1, 0], permute_inv = [1, 0], target_cmp = 1, new_srl_idxs = [6, 0],
          sent_idx = 0, num_cmp = 2, num_cmp_msk = [1, 1],
          num_cross_cmp_msk = [[1, 0], [0, 1]], verb_cmp = [0, 1],
          verb_cross_cmp = [[True, False], [False, True]],
          verb_cross_cmp_msk = [[1, 1], [1, 1]],
          collated_out_dicts = [6, 0], out_dict_verb_for_idx = ()\<rparr>"
  by (simp add: nvid_compose_def example_srl_fields example_srl_tables example_srl_verbs example_rng_def upt_rec [of 0]
      upt_rec [of "Suc 0"] example_argsort shuffle_list_from_perm_def py_get_def bind_err_def
      collate_dict_list_def pad_words_with_vocab_def np_pad_after_def py_list_mul_def Let_def
      numeral_2_eq_2)

theorem nvid_composer_invariant_witness:
  "verb_item_getter_nvid (example_srl\<lparr>sample_type := DS4\<rparr>) example_rng
       (\<lambda>i. Inr i) (\<lambda>i. Inr ()) 0
     = Some (Inr \<lparr>permute = [1, 0], permute_inv = [1, 0], target_cmp = 1,
          new_srl_idxs = [6, 0], sent_idx = 0, num_cmp = 2, num_cmp_msk = [1, 1],
          num_cross_cmp_msk = [[1, 0], [0, 1]], verb_cmp = [0, 1],
          verb_cross_cmp = [[True, False], [False, True]],
          verb_cross_cmp_msk = [[1, 1], [1, 1]],
          collated_out_dicts = [6, 0], out_dict_verb_for_idx = ()\<rparr>)
   \<and> sum_list [1, 1 :: int] = 2 \<and> [0, 1 :: int] ! 1 = 1"
proof -
  let ?out = "\<lparr>permute = [1, 0], permute_inv = [1, 0], target_cmp = 1,
          new_srl_idxs = [6, 0], sent_idx = 0, num_cmp = 2, num_cmp_msk = [1, 1],
          num_cross_cmp_msk = [[1, 0], [0, 1]], verb_cmp = [0, 1],
          verb_cross_cmp = [[True, False], [False, True]],
          verb_cross_cmp_msk = [[1, 1], [1, 1]],
          collated_out_dicts = [6, 0 :: int], out_dict_verb_for_idx = ()\<rparr>"
  have ev: "verb_item_getter_nvid (example_srl\<lparr>sample_type := DS4\<rparr>) example_rng
       (\<lambda>i. Inr i) (\<lambda>i. Inr ()) 0 = Some (Inr ?out)"
    by (simp add: verb_item_getter_nvid_def example_gather example_compose)
  from nvid_composer_invariant [OF ev example_rng_perm]
  have "sum_list [1, 1 :: int] = 2 \<and> [0, 1 :: int] ! 1 = 1" by simp
  with ev show ?thesis by simp
qed

section \<open>Termination of the train gathering loop\<close>

















section \<open>Properties of the segment features\<close>

text \<open>
  Claim C6. For every segment-feature array, duration and pair of timestamps
  \<open>(a, b)\<close> with \<open>a > b\<close>, \<^verbatim>\<open>get_seg_feat_for_frms\<close> on the inverted pair returns exactly
  what it returns on the ordered pair \<open>(b, a)\<close>: the same per-bin features and global
  feature, or the same failure.
\<close>

theorem get_seg_feat_for_frms_inverted:
  assumes "b < a"
  shows "get_seg_feat_for_frms self seg_feats (a, b) duration idx
           = get_seg_feat_for_frms self seg_feats (b, a) duration idx"
proof -
  have inverted:
    "(if fst (a, b) > snd (a, b) then (snd (a, b), fst (a, b)) else (a, b)) = (b, a)"
    using assms by simp
  have ordered:
    "(if fst (b, a) > snd (b, a) then (snd (b, a), fst (b, a)) else (b, a)) = (b, a)"
    using assms by simp
  show ?thesis
    unfolding get_seg_feat_for_frms_def inverted ordered by (rule refl)
qed

lemma example_ctx: "ctx_for_seg_feats example_dataset = 0"
  by (simp add: example_dataset_def)

lemma ten: "[0..<10] = [0, 1, 2, 3, 4, 5, 6, 7, 8, 9]"
  by (simp add: upt_rec [of _ "numeral _"] upt_rec [of _ "Suc _"] numeral_eq_Suc)

lemma example_bins:
  "map (\<lambda>t. min (max (np_astype_int (t * 2) - 1) 0) (int (length [[1::real], [2]]) - 1))
     (map (\<lambda>k. 3 + ((5 - 3) / 10) * (k + 1 / 2)) (map real [0..<10]))
   = [1, 1, 1, 1, 1, 1, 1, 1, 1, 1]"
  unfolding ten by (simp add: np_astype_int_def)

lemma example_seg_feat_ordered:
  "get_seg_feat_for_frms example_dataset [[1], [2]] (3, 5) 10 0
     = Inr ([[2], [2], [2], [2], [2], [2], [2], [2], [2], [2]], [3 / 2])"
  unfolding get_seg_feat_for_frms_def Let_def example_ctx fst_conv snd_conv
  apply (simp only: less_numeral_simps Num.less_num_simps if_False fst_conv snd_conv example_bins)
  apply (simp add: bind_err_def np_mean_axis0_def py_slice_def py_get_def transpose.simps)
  done

theorem get_seg_feat_for_frms_inverted_witness:
  "get_seg_feat_for_frms example_dataset [[1], [2]] (5, 3) 10 0
     = Inr ([[2], [2], [2], [2], [2], [2], [2], [2], [2], [2]], [3 / 2])"
  using get_seg_feat_for_frms_inverted [of 3 5 example_dataset "[[1], [2]]" 10 0]
        example_seg_feat_ordered
  by simp

section \<open>Properties of the box shift\<close>

lemma round_half_even_of_int: "round_half_even (of_int k) = k"
  by (simp add: round_half_even_def)

lemma pow2_pos: "0 < pow2 e"
  by (simp add: pow2_def)

lemma pow2_Suc: "pow2 (e + 1) = 2 * pow2 e"
proof (cases "0 \<le> e")
  case True
  then show ?thesis by (simp add: pow2_def nat_add_distrib)
next
  case False
  then obtain m where m: "nat (- e) = Suc m" by (cases "nat (- e)") simp_all
  show ?thesis
  proof (cases "e = - 1")
    case True
    then show ?thesis by (simp add: pow2_def)
  next
    case ne: False
    have "nat (- (e + 1)) = m" using m by simp
    then show ?thesis using False ne m by (simp add: pow2_def)
  qed
qed

lemma pow2_mono_nat: "pow2 e \<le> pow2 (e + int k)"
proof (induction k)
  case 0
  then show ?case by simp
next
  case (Suc k)
  have "pow2 (e + int (Suc k)) = 2 * pow2 (e + int k)"
    using pow2_Suc [of "e + int k"] by (simp add: ac_simps)
  with Suc pow2_pos [of "e + int k"] show ?case by simp
qed

lemma pow2_mono: "e1 \<le> e2 \<Longrightarrow> pow2 e1 \<le> pow2 e2"
  using pow2_mono_nat [of e1 "nat (e2 - e1)"] by simp

lemma f32_exp_search_eq:
  assumes "e0 \<le> e" "e - e0 \<le> int k" "a < pow2 (e + 1)" "e0 < e \<longrightarrow> pow2 e \<le> a"
  shows "f32_exp_search k e0 a = e"
  using assms
proof (induction k arbitrary: e0)
  case 0
  then show ?case by simp
next
  case (Suc k)
  show ?case
  proof (cases "e0 = e")
    case True
    then show ?thesis using Suc.prems(3) by simp
  next
    case False
    then have lt: "e0 < e" using Suc.prems(1) by simp
    then have "pow2 (e0 + 1) \<le> pow2 e" by (intro pow2_mono) simp
    then have "pow2 (e0 + 1) \<le> a" using Suc.prems(4) lt by simp
    moreover have "f32_exp_search k (e0 + 1) a = e"
      using Suc.prems lt by (intro Suc.IH) simp_all
    ultimately show ?thesis by simp
  qed
qed

lemma f32_exponent_eq:
  assumes "- 126 \<le> e" "e \<le> 127" "\<bar>x\<bar> < pow2 (e + 1)" "- 126 < e \<longrightarrow> pow2 e \<le> \<bar>x\<bar>"
  shows "f32_exponent x = e"
  unfolding f32_exponent_def using assms by (intro f32_exp_search_eq) simp_all

lemma f32_round_0: "f32_round 0 = Some 0"
proof -
  have "f32_exponent 0 = - 126"
    by (rule f32_exponent_eq) (simp_all add: pow2_def)
  then show ?thesis by (simp add: f32_round_def round_half_even_def)
qed

lemma f32_round_int:
  assumes "\<bar>k\<bar> < 2 ^ 24"
  shows "f32_round (of_int k) = Some (of_int k)"
proof (cases "k = 0")
  case True
  then show ?thesis by (simp add: f32_round_0)
next
  case False
  define a where "a = nat \<bar>k\<bar>"
  have a: "1 \<le> a" "a < 2 ^ 24" using False assms by (simp_all add: a_def nat_less_iff)
  from ex_power_ivl1 [of 2 a] a(1) obtain n where n: "2 ^ n \<le> a" "a < 2 ^ (n + 1)" by auto
  have "(2::nat) ^ n < 2 ^ 24" using n(1) a(2) by linarith
  then have n24: "n < 24" by (rule power_less_imp_less_exp [rotated]) simp
  have ak: "\<bar>real_of_int k\<bar> = real a" by (simp add: a_def)
  have lo': "(2::real) ^ n \<le> real a"
  proof -
    have "real (2 ^ n) \<le> real a" using n(1) by (rule of_nat_mono)
    then show ?thesis by simp
  qed
  have hi': "real a < 2 ^ (n + 1)"
  proof -
    have "real a < real (2 ^ (n + 1))" using n(2) by (simp only: of_nat_less_iff)
    then show ?thesis by simp
  qed
  have a24: "real a < 2 ^ 24"
  proof -
    have "real a < real (2 ^ 24)" using a(2) by (simp only: of_nat_less_iff)
    then show ?thesis by simp
  qed
  have lo: "pow2 (int n) \<le> \<bar>real_of_int k\<bar>"
    using lo' unfolding ak pow2_def by simp
  have hi: "\<bar>real_of_int k\<bar> < pow2 (int n + 1)"
    using hi' unfolding ak pow2_def by (simp add: nat_add_distrib)
  have e: "f32_exponent (of_int k) = int n"
    using lo hi n24 by (intro f32_exponent_eq) simp_all
  define m where "m = 23 - n"
  have u: "pow2 (int n - 23) = 1 / 2 ^ m"
  proof (cases "n = 23")
    case True
    then show ?thesis by (simp add: pow2_def m_def)
  next
    case False
    then have "nat (23 - int n) = m" using n24 by (simp add: m_def)
    then show ?thesis using n24 False by (simp add: pow2_def)
  qed
  have q: "real_of_int k / (1 / 2 ^ m) = of_int (k * 2 ^ m)" by simp
  have r: "of_int (round_half_even (real_of_int k / (1 / 2 ^ m))) * (1 / 2 ^ m) = real_of_int k"
    by (simp only: q round_half_even_of_int) simp
  have small: "\<not> 2 ^ 128 \<le> \<bar>real_of_int k\<bar>"
  proof -
    have "real a < 2 ^ 24" by (rule a24)
    also have "(2 :: real) ^ 24 < 2 ^ 128" by simp
    finally show ?thesis by (simp only: ak not_le)
  qed
  show ?thesis
    unfolding f32_round_def using small by (simp only: e Let_def u r if_False)
qed

lemma f32_mul_one:
  "\<bar>k\<bar> < 2 ^ 24 \<Longrightarrow> f32_mul (f32_round (of_int k)) (Some 1) = Some (of_int k)"
  by (simp add: f32_mul_def f32_round_int)

lemma f32_mul_zero:
  "\<bar>k\<bar> < 2 ^ 24 \<Longrightarrow> f32_mul (f32_round (of_int k)) (Some 0) = Some 0"
  by (simp add: f32_mul_def f32_round_int f32_round_0)

lemma f32_add_zero: "is_f32 a \<Longrightarrow> f32_add a (Some 0) = a"
  by (cases a) (simp_all add: f32_add_def is_f32_def)

lemma flat_index:
  assumes "v < n" "i < m" "c < (d::nat)"
  shows "(v * m + i) * d + c < n * m * d"
        "((v * m + i) * d + c) div (m * d) = v"
        "((v * m + i) * d + c) mod d = c"
proof -
  have r: "i * d + c < m * d"
  proof -
    have "i * d + c < i * d + d" using assms(3) by simp
    also have "\<dots> = Suc i * d" by simp
    also have "\<dots> \<le> m * d" using assms(2) by (intro mult_le_mono1) simp
    finally show ?thesis .
  qed
  have e: "(v * m + i) * d + c = v * (m * d) + (i * d + c)"
    by (simp add: algebra_simps)
  have "v * (m * d) + (i * d + c) < v * (m * d) + m * d" using r by simp
  also have "\<dots> = Suc v * (m * d)" by simp
  also have "\<dots> \<le> n * (m * d)" using assms(1) by (intro mult_le_mono1) simp
  finally show "(v * m + i) * d + c < n * m * d" by (simp add: e mult.assoc)
  have e': "(v * m + i) * d + c = i * d + c + v * (m * d)"
    by (simp add: algebra_simps)
  have "(i * d + c + v * (m * d)) div (m * d) = v + (i * d + c) div (m * d)"
    using assms(2,3) by (subst div_mult_self1) simp_all
  also have "\<dots> = v" using r by simp
  finally show "((v * m + i) * d + c) div (m * d) = v"
    by (simp only: e')
  show "((v * m + i) * d + c) mod d = c"
    using assms(3) by simp
qed

lemma torch_view_nat:
  assumes "prod_list (shape t) = prod_list ns"
  shows "torch_view t (map int ns) = Inr \<lparr>shape = ns, data = data t\<rparr>"
proof -
  have f1: "filter (\<lambda>s. s = - 1) (map int ns) = []" by (induction ns) simp_all
  have f2: "filter (\<lambda>s. s \<noteq> - 1) (map int ns) = map int ns" by (induction ns) simp_all
  have p: "prod_list (map int ns) = int (prod_list ns)" by (induction ns) simp_all
  have n: "\<not> list_ex (\<lambda>s. s < - 1) (map int ns)" by (simp add: list_ex_iff)
  have m: "map (\<lambda>s. nat (if s = - 1 then q else s)) (map int ns) = ns" for q
    by (induction ns) simp_all
  show ?thesis
    unfolding torch_view_def Let_def f1 f2 p using n assms m by simp
qed


lemma shifted_shape:
  "shape (shifted props n m d shift cols) = [n, m, d]"
  "float32_tensor3 props n m d \<Longrightarrow> length (data (shifted props n m d shift cols)) = n * m * d"
  by (simp_all add: shifted_def float32_tensor3_def shift_delta_def)

lemma shifted_views:
  "torch_view (shifted props n m d shift cols) [int n, int m, int d]
     = Inr (shifted props n m d shift cols)"
  "torch_view (shifted props n m d shift cols) [int n * int m, int d]
     = Inr ((shifted props n m d shift cols)\<lparr>shape := [n * m, d]\<rparr>)"
proof -
  let ?S = "shifted props n m d shift cols"
  have s: "shape ?S = [n, m, d]" by (simp add: shifted_def)
  show "torch_view ?S [int n, int m, int d] = Inr ?S"
    using torch_view_nat [of ?S "[n, m, d]"] s by simp
  show "torch_view ?S [int n * int m, int d] = Inr (?S\<lparr>shape := [n * m, d]\<rparr>)"
    using torch_view_nat [of ?S "[n * m, d]"] s by (simp add: mult.assoc)
qed

lemma shifted_entry:
  assumes wf: "float32_tensor3 props n m d"
      and small: "\<forall>v<n. \<bar>int v * shift\<bar> < 2 ^ 24"
      and v: "v < n" and i: "i < m" and c: "c < d"
  shows "tensor_at3 (shifted props n m d shift cols) v i c
         = (if c \<in> set cols
            then f32_add (tensor_at3 props v i c) (Some (of_int shift * real v))
            else tensor_at3 props v i c)"
proof -
  let ?j = "(v * m + i) * d + c"
  define k where "k = int v * shift"
  note fi = flat_index [OF v i c]
  have sh: "shape props = [n, m, d]" and len: "length (data props) = n * m * d"
    using wf by (simp_all add: float32_tensor3_def)
  have f: "is_f32 (data props ! ?j)"
    using wf fi(1) len by (simp add: float32_tensor3_def)
  have s: "\<bar>k\<bar> < 2 ^ 24" using small v by (simp add: k_def)
  have kr: "real_of_int k = of_int shift * real v" by (simp add: k_def)
  have "data (shifted props n m d shift cols) ! ?j
      = f32_add (data props ! ?j)
          (f32_mul (f32_round (of_int k)) (if c \<in> set cols then Some 1 else Some 0))"
    unfolding k_def using fi len by (simp add: shifted_def shift_delta_def)
  also have "\<dots> = (if c \<in> set cols
            then f32_add (data props ! ?j) (Some (of_int k))
            else data props ! ?j)"
    by (simp only: f32_mul_one [OF s] f32_mul_zero [OF s] f32_add_zero [OF f] if_distrib [of "f32_mul _"]
          if_distrib [of "f32_add _"] cong: if_cong)
  finally show ?thesis
    by (simp add: tensor_at3_def sh shifted_def kr)
qed

lemma shifted_recover:
  assumes wf: "float32_tensor3 props n m d"
      and small: "\<forall>v<n. \<bar>int v * shift\<bar> < 2 ^ 24"
      and v: "v < n" and i: "i < m" and c: "c < d"
      and x: "tensor_at3 props v i c = Some x"
      and ex: "f32_round (x + of_int shift * real v) = Some (x + of_int shift * real v)"
  shows "\<exists>y. tensor_at3 (shifted props n m d shift cols) v i c = Some y
           \<and> y - (if c \<in> set cols then of_int shift * real v else 0) = x"
  using shifted_entry [OF wf small v i c, of cols] x ex by (simp add: f32_add_def)

lemma shift_delta_msk_ok:
  "\<forall>c\<in>set cols. c < pdim \<Longrightarrow>
     shift_delta_msk n m pdim cols
       = Inr (map (\<lambda>j. if j mod pdim \<in> set cols then Some 1 else Some 0) [0..<n * m * pdim])"
  by (auto simp: shift_delta_msk_def list_ex_iff)

lemma process_props_SPAT_shifted:
  assumes "shape props = [n, m, d]" "2 < d"
  shows "process_props_SPAT self props shift keepdim reshuffle_box =
     bind_err (if reshuffle_box then reshuffle_boxes self (shifted props n m d shift [0, 2])
               else Inr (shifted props n m d shift [0, 2])) (\<lambda>props_new.
       if keepdim then torch_view props_new [int n, int m, int d]
       else torch_view props_new [int n * int m, int d])"
proof -
  have mk: "shift_delta_msk n m d [0, 2]
       = Inr (map (\<lambda>j. if j mod d \<in> set [0, 2] then Some 1 else Some 0) [0..<n * m * d])"
    using assms(2) by (intro shift_delta_msk_ok) simp
  show ?thesis
    unfolding process_props_SPAT_def assms(1) list.case mk bind_err_Inr Let_def shifted_def ..
qed

lemma process_props_TEMP_shifted:
  assumes "shape props = [n, m, d]" "4 < d"
  shows "process_props_TEMP props shift keepdim reshuffle_box =
     (if keepdim then torch_view (shifted props n m d shift [4]) [int n, int m, int d]
      else torch_view (shifted props n m d shift [4]) [int n * int m, int d])"
proof -
  have mk: "shift_delta_msk n m d [4]
       = Inr (map (\<lambda>j. if j mod d \<in> set [4] then Some 1 else Some 0) [0..<n * m * d])"
    using assms(2) by (intro shift_delta_msk_ok) simp
  show ?thesis
    unfolding process_props_TEMP_def assms(1) list.case mk bind_err_Inr Let_def shifted_def ..
qed

lemma concat_chunks_length:
  assumes "\<forall>k<K. length (g k) = L"
  shows "length (concat (map g [0..<K])) = K * L"
  using assms by (induction K) simp_all

lemma concat_chunks_nth:
  assumes "\<forall>k<K. length (g k) = L" "k < K" "r < L"
  shows "concat (map g [0..<K]) ! (k * L + r) = g k ! r"
  using assms
proof (induction K)
  case 0
  then show ?case by simp
next
  case (Suc K)
  have len: "length (concat (map g [0..<K])) = K * L"
    using Suc.prems(1) by (intro concat_chunks_length) simp
  show ?case
  proof (cases "k < K")
    case True
    have "k * L + r < Suc k * L" using Suc.prems(3) by simp
    also have "\<dots> \<le> K * L" using True by (intro mult_le_mono1) simp
    finally have lt: "k * L + r < K * L" .
    have "concat (map g [0..<K]) ! (k * L + r) = g k ! r"
      using Suc.prems True by (intro Suc.IH) simp_all
    then show ?thesis using lt len by (simp add: nth_append)
  next
    case False
    then have k: "k = K" using Suc.prems(2) by simp
    show ?thesis using len by (simp add: nth_append k)
  qed
qed

lemma reshuffle_boxes_shifted:
  assumes sh: "shape t = [n, m, d]" and len: "length (data t) = n * m * d"
      and cfg: "0 \<le> num_frms self" "0 \<le> num_prop_per_frm self"
               "int m = num_frms self * num_prop_per_frm self"
  shows "reshuffle_boxes self t =
     Inr \<lparr>shape = [nat (num_frms self) * n * nat (num_prop_per_frm self), d],
          data = concat (map (\<lambda>f. concat (map (\<lambda>v.
                    take (nat (num_prop_per_frm self) * d)
                      (drop ((v * nat (num_frms self) + f) * (nat (num_prop_per_frm self) * d))
                         (data t))) [0..<n])) [0..<nat (num_frms self)])\<rparr>"
proof -
  define F where "F = nat (num_frms self)"
  define P where "P = nat (num_prop_per_frm self)"
  have FP: "num_frms self = int F" "num_prop_per_frm self = int P"
    using cfg by (simp_all add: F_def P_def)
  have m: "m = F * P" using cfg(3) unfolding FP by (metis of_nat_eq_iff of_nat_mult)
  have v1: "torch_view t [int n, int F, int P, int d]
      = Inr \<lparr>shape = [n, F, P, d], data = data t\<rparr>"
    using torch_view_nat [of t "[n, F, P, d]"] by (simp add: sh m mult.assoc)
  let ?d1 = "concat (map (\<lambda>f. concat (map (\<lambda>v.
                    take (P * d) (drop ((v * F + f) * (P * d)) (data t))) [0..<n])) [0..<F])"
  have t1: "transpose01 \<lparr>shape = [n, F, P, d], data = data t\<rparr>
      = Inr \<lparr>shape = [F, n, P, d], data = ?d1\<rparr>"
    by (simp add: transpose01_def Let_def)
  have v2: "torch_view \<lparr>shape = [F, n, P, d], data = ?d1\<rparr> [int F * int n * int P, int d]
      = Inr \<lparr>shape = [F * n * P, d], data = ?d1\<rparr>"
    using torch_view_nat [of "\<lparr>shape = [F, n, P, d], data = ?d1\<rparr>" "[F * n * P, d]"]
    by (simp add: mult.assoc)
  show ?thesis
    unfolding reshuffle_boxes_def sh list.case Let_def
    by (simp add: FP v1 t1 v2 flip: F_def P_def)
qed


lemma chunk_bound:
  assumes "a < A" "r < (L::nat)"
  shows "a * L + r < A * L"
proof -
  have "a * L + r < Suc a * L" using assms(2) by simp
  also have "\<dots> \<le> A * L" using assms(1) by (intro mult_le_mono1) simp
  finally show ?thesis .
qed

lemma reshuffled_nth:
  assumes len: "length xs = n * (F * P) * d"
      and f: "f < F" and v: "v < n" and p: "p < P" and c: "c < d"
  shows "concat (map (\<lambda>f. concat (map (\<lambda>v.
            take (P * d) (drop ((v * F + f) * (P * d)) xs)) [0..<n])) [0..<F])
           ! (((f * n + v) * P + p) * d + c)
         = xs ! ((v * (F * P) + (f * P + p)) * d + c)"
proof -
  define L where "L = P * d"
  define h where "h = (\<lambda>f v. take L (drop ((v * F + f) * L) xs))"
  define g where "g = (\<lambda>f. concat (map (h f) [0..<n]))"
  have r: "p * d + c < L" unfolding L_def using p c by (rule chunk_bound)
  have hl: "length (h f' v') = L" if "f' < F" "v' < n" for f' v'
  proof -
    have "v' * F + f' < n * F" using that by (intro chunk_bound)
    then have "Suc (v' * F + f') * L \<le> n * F * L" by (intro mult_le_mono1) simp
    then have "(v' * F + f') * L + L \<le> length xs"
      by (simp add: len L_def algebra_simps)
    then show ?thesis by (simp add: h_def)
  qed
  have gl: "\<forall>f'<F. length (g f') = n * L"
    unfolding g_def using hl by (intro allI impI concat_chunks_length) simp
  have r2: "v * L + (p * d + c) < n * L" using v r by (rule chunk_bound)
  have idx: "((f * n + v) * P + p) * d + c = f * (n * L) + (v * L + (p * d + c))"
    by (simp add: L_def algebra_simps)
  have "concat (map g [0..<F]) ! (f * (n * L) + (v * L + (p * d + c)))
      = g f ! (v * L + (p * d + c))"
    using gl f r2 by (rule concat_chunks_nth)
  also have "\<dots> = h f v ! (p * d + c)"
    unfolding g_def using hl [OF f] v r by (intro concat_chunks_nth) simp_all
  also have "\<dots> = xs ! ((v * F + f) * L + (p * d + c))"
  proof -
    have "v * F + f < n * F" using v f by (intro chunk_bound)
    then have "Suc (v * F + f) * L \<le> n * F * L" by (intro mult_le_mono1) simp
    then have "(v * F + f) * L + L \<le> length xs"
      by (simp add: len L_def algebra_simps)
    then show ?thesis using r by (simp add: h_def)
  qed
  also have "(v * F + f) * L + (p * d + c) = (v * (F * P) + (f * P + p)) * d + c"
    by (simp add: L_def algebra_simps)
  finally show ?thesis by (simp add: g_def h_def L_def idx)
qed

lemma process_props_SPAT_reshuffled:
  assumes wf: "float32_tensor3 props n m d" and d: "2 < d"
      and cfg: "0 \<le> num_frms self" "0 \<le> num_prop_per_frm self"
               "int m = num_frms self * num_prop_per_frm self"
  shows "\<exists>res. process_props_SPAT self props shift False True = Inr res
           \<and> shape res = [n * m, d]
           \<and> (\<forall>f<nat (num_frms self). \<forall>v<n. \<forall>p<nat (num_prop_per_frm self). \<forall>c<d.
                 data res ! (((f * n + v) * nat (num_prop_per_frm self) + p) * d + c)
                   = tensor_at3 (shifted props n m d shift [0, 2]) v
                       (f * nat (num_prop_per_frm self) + p) c)"
proof -
  define F where "F = nat (num_frms self)"
  define P where "P = nat (num_prop_per_frm self)"
  define out where "out = shifted props n m d shift [0, 2]"
  have FP: "num_frms self = int F" "num_prop_per_frm self = int P"
    using cfg by (simp_all add: F_def P_def)
  have m: "m = F * P" using cfg(3) unfolding FP by (metis of_nat_eq_iff of_nat_mult)
  have sh: "shape props = [n, m, d]" using wf by (simp add: float32_tensor3_def)
  have so: "shape out = [n, m, d]" "length (data out) = n * m * d"
    using wf by (simp_all add: out_def shifted_shape)
  let ?D = "concat (map (\<lambda>f. concat (map (\<lambda>v.
                    take (P * d) (drop ((v * F + f) * (P * d)) (data out))) [0..<n])) [0..<F])"
  have rs: "reshuffle_boxes self out = Inr \<lparr>shape = [F * n * P, d], data = ?D\<rparr>"
    using reshuffle_boxes_shifted [OF so cfg] by (simp add: F_def P_def)
  have vw: "torch_view \<lparr>shape = [F * n * P, d], data = ?D\<rparr> [int n * int m, int d]
      = Inr \<lparr>shape = [n * m, d], data = ?D\<rparr>"
    using torch_view_nat [of "\<lparr>shape = [F * n * P, d], data = ?D\<rparr>" "[n * m, d]"]
    by (simp add: m mult.assoc mult.left_commute)
  have pp: "process_props_SPAT self props shift False True = Inr \<lparr>shape = [n * m, d], data = ?D\<rparr>"
    using process_props_SPAT_shifted [OF sh d, of self shift False True] rs vw
    by (simp add: out_def)
  have en: "?D ! (((f * n + v) * P + p) * d + c) = tensor_at3 out v (f * P + p) c"
    if "f < F" "v < n" "p < P" "c < d" for f v p c
  proof -
    have len: "length (data out) = n * (F * P) * d" using so(2) by (simp add: m)
    show ?thesis
      using reshuffled_nth [OF len that] by (simp add: tensor_at3_def so(1) m)
  qed
  show ?thesis
    unfolding F_def [symmetric] P_def [symmetric] out_def [symmetric]
    using pp en by (intro exI [of _ "\<lparr>shape = [n * m, d], data = ?D\<rparr>"]) simp
qed

lemma offsets_small:
  assumes "n \<le> 23301" "0 \<le> shift" "shift \<le> 720"
  shows "\<forall>v<n. \<bar>int v * shift\<bar> < 2 ^ 24"
proof (intro allI impI)
  fix v assume "v < n"
  then have "int v * shift \<le> 23300 * 720"
    using assms by (intro mult_mono) simp_all
  moreover have "0 \<le> int v * shift" using assms(2) by simp
  ultimately show "\<bar>int v * shift\<bar> < 2 ^ 24" by simp
qed

text \<open>
  Claim C7, as amended. For a stacked \<^verbatim>\<open>float32\<close> box tensor of \<open>n\<close> videos (\<open>n \<times> m \<times> d\<close>, with
  \<open>n \<le> 23301\<close> so that every offset is itself a \<^verbatim>\<open>float32\<close> value), the SPAT shift
  replaces each entry \<open>x\<close> in columns 0 and 2 of video \<open>v\<close> by the \<^verbatim>\<open>float32\<close> sum of \<open>x\<close>
  and \<open>720 * v\<close> and leaves every other column unchanged, and the TEMP shift does the
  same with \<open>10 * v\<close> in column 4, in the kept and in the flattened view; with
  \<^verbatim>\<open>reshuffle_box\<close> and \<open>m = num_frms * num_prop_per_frm\<close> the SPAT result holds the
  shifted rows in (frame, video, proposal) order. Subtracting the offset of the video
  from a shifted entry gives back the entry before the shift whenever the sum was exact,
  that is, whenever \<open>x + 720 * v\<close> (\<open>x + 10 * v\<close>) is a \<^verbatim>\<open>float32\<close> value.
\<close>

theorem process_props_shift:
  assumes wf: "float32_tensor3 props n m d" and n: "n \<le> 23301"
  shows "(2 < d \<longrightarrow>
           (\<exists>out. process_props_SPAT self props 720 True False = Inr out
              \<and> shape out = [n, m, d] \<and> length (data out) = n * m * d
              \<and> process_props_SPAT self props 720 False False = Inr (out\<lparr>shape := [n * m, d]\<rparr>)
              \<and> process_props_SPAT self props 720 False True
                  = bind_err (reshuffle_boxes self out)
                      (\<lambda>t. torch_view t [int n * int m, int d])
              \<and> (0 \<le> num_frms self \<and> 0 \<le> num_prop_per_frm self
                   \<and> int m = num_frms self * num_prop_per_frm self \<longrightarrow>
                  (\<exists>res. process_props_SPAT self props 720 False True = Inr res
                     \<and> shape res = [n * m, d]
                     \<and> (\<forall>f<nat (num_frms self). \<forall>v<n. \<forall>p<nat (num_prop_per_frm self). \<forall>c<d.
                           data res ! (((f * n + v) * nat (num_prop_per_frm self) + p) * d + c)
                             = tensor_at3 out v (f * nat (num_prop_per_frm self) + p) c)))
              \<and> (\<forall>v<n. \<forall>i<m. \<forall>c<d.
                    tensor_at3 out v i c
                      = (if c = 0 \<or> c = 2
                         then f32_add (tensor_at3 props v i c) (Some (720 * real v))
                         else tensor_at3 props v i c)
                  \<and> (\<forall>x. tensor_at3 props v i c = Some x
                          \<and> f32_round (x + 720 * real v) = Some (x + 720 * real v) \<longrightarrow>
                        (\<exists>y. tensor_at3 out v i c = Some y
                           \<and> y - (if c = 0 \<or> c = 2 then 720 * real v else 0) = x)))))
       \<and> (4 < d \<longrightarrow>
           (\<exists>out. process_props_TEMP props 10 True False = Inr out
              \<and> shape out = [n, m, d] \<and> length (data out) = n * m * d
              \<and> process_props_TEMP props 10 False False = Inr (out\<lparr>shape := [n * m, d]\<rparr>)
              \<and> (\<forall>v<n. \<forall>i<m. \<forall>c<d.
                    tensor_at3 out v i c
                      = (if c = 4
                         then f32_add (tensor_at3 props v i c) (Some (10 * real v))
                         else tensor_at3 props v i c)
                  \<and> (\<forall>x. tensor_at3 props v i c = Some x
                          \<and> f32_round (x + 10 * real v) = Some (x + 10 * real v) \<longrightarrow>
                        (\<exists>y. tensor_at3 out v i c = Some y
                           \<and> y - (if c = 4 then 10 * real v else 0) = x)))))"
proof (intro conjI impI)
  have sh: "shape props = [n, m, d]" using wf by (simp add: float32_tensor3_def)
  {
    assume d: "2 < d"
    define out where "out = shifted props n m d 720 [0, 2]"
    have small: "\<forall>v<n. \<bar>int v * 720\<bar> < 2 ^ 24" using n by (intro offsets_small) simp_all
    note pp = process_props_SPAT_shifted [OF sh d, of self 720, folded out_def]
    note vw = shifted_views [of props n m d 720 "[0, 2]", folded out_def]
    have k: "process_props_SPAT self props 720 True False = Inr out"
      by (simp add: pp vw)
    have f: "process_props_SPAT self props 720 False False = Inr (out\<lparr>shape := [n * m, d]\<rparr>)"
      by (simp add: pp vw)
    have r: "process_props_SPAT self props 720 False True
                  = bind_err (reshuffle_boxes self out)
                      (\<lambda>t. torch_view t [int n * int m, int d])"
      by (simp add: pp)
    have e: "tensor_at3 out v i c
                      = (if c = 0 \<or> c = 2
                         then f32_add (tensor_at3 props v i c) (Some (720 * real v))
                         else tensor_at3 props v i c)" if "v < n" "i < m" "c < d" for v i c
      using shifted_entry [OF wf small that, of "[0, 2]"] by (simp add: out_def)
    have b: "\<exists>y. tensor_at3 out v i c = Some y
                           \<and> y - (if c = 0 \<or> c = 2 then 720 * real v else 0) = x"
      if "v < n" "i < m" "c < d" "tensor_at3 props v i c = Some x
                          \<and> f32_round (x + 720 * real v) = Some (x + 720 * real v)" for v i c x
    proof -
      have p: "tensor_at3 props v i c = Some x"
        "f32_round (x + of_int 720 * real v) = Some (x + of_int 720 * real v)"
        using that(4) by simp_all
      from shifted_recover [OF wf small that(1-3) p, of "[0, 2]"]
      obtain y where y: "tensor_at3 (shifted props n m d 720 [0, 2]) v i c = Some y"
        "y - (if c \<in> set [0, 2] then of_int 720 * real v else 0) = x" by blast
      show ?thesis unfolding out_def using y by (intro exI [of _ y]) auto
    qed
    show "\<exists>out. process_props_SPAT self props 720 True False = Inr out
              \<and> shape out = [n, m, d] \<and> length (data out) = n * m * d
              \<and> process_props_SPAT self props 720 False False = Inr (out\<lparr>shape := [n * m, d]\<rparr>)
              \<and> process_props_SPAT self props 720 False True
                  = bind_err (reshuffle_boxes self out)
                      (\<lambda>t. torch_view t [int n * int m, int d])
              \<and> (0 \<le> num_frms self \<and> 0 \<le> num_prop_per_frm self
                   \<and> int m = num_frms self * num_prop_per_frm self \<longrightarrow>
                  (\<exists>res. process_props_SPAT self props 720 False True = Inr res
                     \<and> shape res = [n * m, d]
                     \<and> (\<forall>f<nat (num_frms self). \<forall>v<n. \<forall>p<nat (num_prop_per_frm self). \<forall>c<d.
                           data res ! (((f * n + v) * nat (num_prop_per_frm self) + p) * d + c)
                             = tensor_at3 out v (f * nat (num_prop_per_frm self) + p) c)))
              \<and> (\<forall>v<n. \<forall>i<m. \<forall>c<d.
                    tensor_at3 out v i c
                      = (if c = 0 \<or> c = 2
                         then f32_add (tensor_at3 props v i c) (Some (720 * real v))
                         else tensor_at3 props v i c)
                  \<and> (\<forall>x. tensor_at3 props v i c = Some x
                          \<and> f32_round (x + 720 * real v) = Some (x + 720 * real v) \<longrightarrow>
                        (\<exists>y. tensor_at3 out v i c = Some y
                           \<and> y - (if c = 0 \<or> c = 2 then 720 * real v else 0) = x)))"
      apply (rule exI [of _ out])
      apply (intro conjI allI impI)
      subgoal by (rule k)
      subgoal by (simp add: out_def shifted_shape)
      subgoal using wf by (simp add: out_def shifted_shape)
      subgoal by (rule f)
      subgoal by (rule r)
      subgoal unfolding out_def by (rule process_props_SPAT_reshuffled [OF wf d]) simp_all
      subgoal for v i c by (rule e)
      subgoal for v i c x by (rule b)
      done
  }
  {
    assume d: "4 < d"
    define out where "out = shifted props n m d 10 [4]"
    have small: "\<forall>v<n. \<bar>int v * 10\<bar> < 2 ^ 24" using n by (intro offsets_small) simp_all
    note pp = process_props_TEMP_shifted [OF sh d, of 10, folded out_def]
    note vw = shifted_views [of props n m d 10 "[4]", folded out_def]
    have k: "process_props_TEMP props 10 True False = Inr out"
      by (simp add: pp vw)
    have f: "process_props_TEMP props 10 False False = Inr (out\<lparr>shape := [n * m, d]\<rparr>)"
      by (simp add: pp vw)
    have e: "tensor_at3 out v i c
                      = (if c = 4
                         then f32_add (tensor_at3 props v i c) (Some (10 * real v))
                         else tensor_at3 props v i c)" if "v < n" "i < m" "c < d" for v i c
      using shifted_entry [OF wf small that, of "[4]"] by (simp add: out_def)
    have b: "\<exists>y. tensor_at3 out v i c = Some y
                           \<and> y - (if c = 4 then 10 * real v else 0) = x"
      if "v < n" "i < m" "c < d" "tensor_at3 props v i c = Some x
                          \<and> f32_round (x + 10 * real v) = Some (x + 10 * real v)" for v i c x
    proof -
      have p: "tensor_at3 props v i c = Some x"
        "f32_round (x + of_int 10 * real v) = Some (x + of_int 10 * real v)"
        using that(4) by simp_all
      from shifted_recover [OF wf small that(1-3) p, of "[4]"]
      obtain y where y: "tensor_at3 (shifted props n m d 10 [4]) v i c = Some y"
        "y - (if c \<in> set [4] then of_int 10 * real v else 0) = x" by blast
      show ?thesis unfolding out_def using y by (intro exI [of _ y]) auto
    qed
    show "\<exists>out. process_props_TEMP props 10 True False = Inr out
              \<and> shape out = [n, m, d] \<and> length (data out) = n * m * d
              \<and> process_props_TEMP props 10 False False = Inr (out\<lparr>shape := [n * m, d]\<rparr>)
              \<and> (\<forall>v<n. \<forall>i<m. \<forall>c<d.
                    tensor_at3 out v i c
                      = (if c = 4
                         then f32_add (tensor_at3 props v i c) (Some (10 * real v))
                         else tensor_at3 props v i c)
                  \<and> (\<forall>x. tensor_at3 props v i c = Some x
                          \<and> f32_round (x + 10 * real v) = Some (x + 10 * real v) \<longrightarrow>
                        (\<exists>y. tensor_at3 out v i c = Some y
                           \<and> y - (if c = 4 then 10 * real v else 0) = x)))"
      apply (rule exI [of _ out])
      apply (intro conjI allI impI)
      subgoal by (rule k)
      subgoal by (simp add: out_def shifted_shape)
      subgoal using wf by (simp add: out_def shifted_shape)
      subgoal by (rule f)
      subgoal for v i c by (rule e)
      subgoal for v i c x by (rule b)
      done
  }
qed

lemma example_rounding:
  "f32_round 8 = Some 8" "f32_round 10 = Some 10" "f32_round 720 = Some 720"
  "f32_round 728 = Some 728"
  using f32_round_int [of 8] f32_round_int [of 10] f32_round_int [of 720] f32_round_int [of 728]
  by simp_all

lemma example_rounding_small: "f32_round (1 / 65536) = Some (1 / 65536)"
proof -
  have "f32_exponent (1 / 65536) = - 16"
    by (rule f32_exponent_eq) (simp_all add: pow2_def)
  then show ?thesis by (simp add: f32_round_def Let_def round_half_even_def pow2_def)
qed

lemma example_rounding_sum: "f32_round (47185921 / 65536) = Some 720"
proof -
  have "f32_exponent (47185921 / 65536) = 9"
    by (rule f32_exponent_eq) (simp_all add: pow2_def)
  then show ?thesis by (simp add: f32_round_def Let_def round_half_even_def pow2_def)
qed

lemma example_boxes_wf: "float32_tensor3 example_boxes 2 1 7"
  by (simp add: float32_tensor3_def example_boxes_def is_f32_def f32_round_0
      example_rounding example_rounding_small)

lemma fourteen: "[0..<14] = [0, 1, 2, 3, 4, 5, 6, 7, 8, 9, 10, 11, 12, 13]"
  by (simp add: upt_conv_Cons)

lemma example_shifted:
  "shifted example_boxes 2 (Suc 0) 7 720 [0, 2] =
     \<lparr>shape = [2, Suc 0, 7],
      data = [Some 0, Some 0, Some 0, Some 0, Some 0, Some 0, Some 0,
              Some 720, Some 0, Some 728, Some 0, Some 0, Some 0, Some 0]\<rparr>"
  by (simp add: shifted_def shift_delta_def example_boxes_def fourteen f32_add_def f32_mul_def
      f32_round_0 example_rounding example_rounding_sum)

text \<open>
  The sum is not exact in general: \<open>2^-16 + 720\<close> rounds to \<open>720\<close>, so the box of video 1
  that starts at \<open>x = 2^-16\<close> is shifted to \<open>x = 720\<close>, and subtracting the offset 720 gives
  0, not \<open>2^-16\<close>.
\<close>

theorem process_props_shift_counterexample:
  "process_props_SPAT example_dataset example_boxes 720 True False
     = Inr \<lparr>shape = [2, 1, 7],
            data = [Some 0, Some 0, Some 0, Some 0, Some 0, Some 0, Some 0,
                    Some 720, Some 0, Some 728, Some 0, Some 0, Some 0, Some 0]\<rparr>
   \<and> tensor_at3 example_boxes 1 0 0 = Some (1 / 65536)
   \<and> (720 :: real) - 720 * real 1 \<noteq> 1 / 65536"
proof -
  have sh: "shape example_boxes = [2, 1, 7]" by (simp add: example_boxes_def)
  have "process_props_SPAT example_dataset example_boxes 720 True False
      = Inr (shifted example_boxes 2 1 7 720 [0, 2])"
    using process_props_SPAT_shifted [OF sh, of example_dataset 720 True False]
          shifted_views(1) [of example_boxes 2 1 7 720 "[0, 2]"]
    by simp
  moreover have "tensor_at3 example_boxes 1 0 0 = Some (1 / 65536)"
    by (simp add: tensor_at3_def example_boxes_def)
  ultimately show ?thesis by (simp add: example_shifted)
qed

theorem process_props_shift_witness:
  "float32_tensor3 example_boxes 2 1 7
   \<and> (\<exists>out. process_props_SPAT example_dataset example_boxes 720 True False = Inr out
         \<and> tensor_at3 out 1 0 2 = Some 728 \<and> tensor_at3 out 1 0 1 = Some 0
         \<and> tensor_at3 out 0 0 0 = Some 0)
   \<and> (\<exists>out. process_props_TEMP example_boxes 10 True False = Inr out
         \<and> tensor_at3 out 1 0 4 = Some 10 \<and> tensor_at3 out 1 0 2 = Some 8)"
proof -
  note t = process_props_shift [OF example_boxes_wf, of example_dataset]
  have at: "tensor_at3 example_boxes (Suc 0) 0 2 = Some 8"
    "tensor_at3 example_boxes (Suc 0) 0 (Suc 0) = Some 0"
    "tensor_at3 example_boxes 0 0 0 = Some 0" "tensor_at3 example_boxes (Suc 0) 0 4 = Some 0"
    by (simp_all add: tensor_at3_def example_boxes_def)
  from t obtain out where o:
    "process_props_SPAT example_dataset example_boxes 720 True False = Inr out"
    "\<forall>v<2. \<forall>i<1. \<forall>c<7.
        tensor_at3 out v i c
          = (if c = 0 \<or> c = 2
             then f32_add (tensor_at3 example_boxes v i c) (Some (720 * real v))
             else tensor_at3 example_boxes v i c)
        \<and> (\<forall>x. tensor_at3 example_boxes v i c = Some x
                \<and> f32_round (x + 720 * real v) = Some (x + 720 * real v) \<longrightarrow>
              (\<exists>y. tensor_at3 out v i c = Some y
                 \<and> y - (if c = 0 \<or> c = 2 then 720 * real v else 0) = x))"
    by auto
  have s: "tensor_at3 out 1 0 2 = Some 728" "tensor_at3 out 1 0 1 = Some 0"
    "tensor_at3 out 0 0 0 = Some 0"
    using o(2) [rule_format, of 1 0 2, THEN conjunct1]
          o(2) [rule_format, of 1 0 1, THEN conjunct1]
          o(2) [rule_format, of 0 0 0, THEN conjunct1]
    by (simp_all add: at f32_add_def example_rounding f32_round_0)
  from t obtain out' where o':
    "process_props_TEMP example_boxes 10 True False = Inr out'"
    "\<forall>v<2. \<forall>i<1. \<forall>c<7.
        tensor_at3 out' v i c
          = (if c = 4
             then f32_add (tensor_at3 example_boxes v i c) (Some (10 * real v))
             else tensor_at3 example_boxes v i c)
        \<and> (\<forall>x. tensor_at3 example_boxes v i c = Some x
                \<and> f32_round (x + 10 * real v) = Some (x + 10 * real v) \<longrightarrow>
              (\<exists>y. tensor_at3 out' v i c = Some y
                 \<and> y - (if c = 4 then 10 * real v else 0) = x))"
    by auto
  have s': "tensor_at3 out' 1 0 4 = Some 10" "tensor_at3 out' 1 0 2 = Some 8"
    using o'(2) [rule_format, of 1 0 4, THEN conjunct1]
          o'(2) [rule_format, of 1 0 2, THEN conjunct1]
    by (simp_all add: at f32_add_def example_rounding f32_round_0)
  show ?thesis using example_boxes_wf o(1) s o'(1) s' by simp
qed

end
